theory Spec2Isabelle
  imports Complex_Main "HOL-Library.Multiset"
begin

section \<open>Data model\<close>

text \<open>
  The order service (\<open>createOrder\<close>, \<open>getNearbyStoreIds\<close>, \<open>chunk\<close>,
  \<open>fetchProductRows\<close>) and the store-owner controller (\<open>signupComplete\<close>) are
  embedded as HOL functions. Conventions:
  \<^item> the value of a JavaScript \<open>number\<close> is a \<open>real\<close> (\<open>NaN\<close> and the
    infinities are outside the model). The addition and the multiplication that compute
    a sub-order's subtotal are operations of the environment, since binary64 arithmetic
    rounds: nothing proved about subtotals takes them to be exact unless it says so. The
    quotient of the delivery fee is the real quotient;
  \<^item> a string is a list of bytes, its UTF-8 encoding;
  \<^item> an optional or nullable string is a \<open>string option\<close>; \<open>None\<close> stands for
    \<open>undefined\<close>/\<open>null\<close>, and a value is falsy when it is \<open>None\<close> or the empty string;
  \<^item> cart lines are objects: the cart is a list of references and \<open>heap\<close> maps a
    reference to the object, so that \<open>items.indexOf(it)\<close> compares identities as
    JavaScript does;
  \<^item> record fields carry a short prefix of their table or interface.
\<close>

type_synonym ref = nat

record OrderItem =
  oi_product_id :: "string option"
  oi_id :: "string option"
  oi_name :: string
  oi_price :: real
  oi_quantity :: real
  oi_image :: "string option"
  oi_unit :: "string option"

text \<open>An element of the lists held in \<open>byMaster\<close>: \<open>{ store_id, product_id }\<close>.\<close>

record StoreOption =
  so_store_id :: string
  so_product_id :: string

datatype error =
    UserIdRequired
  | AddressResolutionError
  | SequenceGenerationError string
  | NoStoresAvailableError
  | NoValidProducts
  | TypeError
  | ItemsUnavailableError "string list"
  | PersistenceError string
  | ProductVerificationError
  | ProductNotAvailableError string

definition truthy :: "string option \<Rightarrow> bool" where
  "truthy s = (case s of None \<Rightarrow> False | Some v \<Rightarrow> v \<noteq> [])"

text \<open>JavaScript \<open>a || b\<close> on optional strings.\<close>

definition or_else :: "string option \<Rightarrow> string option \<Rightarrow> string option" where
  "or_else a b = (if truthy a then a else b)"

text \<open>\<open>it.product_id || it.id\<close>\<close>

definition mid_of :: "OrderItem \<Rightarrow> string option" where
  "mid_of it = or_else (oi_product_id it) (oi_id it)"

text \<open>
  \<open>const options = mid ? byMaster.get(mid) : [];\<close> The result \<open>None\<close> is
  \<open>undefined\<close>: the master product id is not a key of \<open>byMaster\<close>.
\<close>

definition options_for ::
  "(string \<rightharpoonup> StoreOption list) \<Rightarrow> string option \<Rightarrow> StoreOption list option" where
  "options_for byMaster mid =
     (case mid of
        None \<Rightarrow> Some []
      | Some m \<Rightarrow> if m \<noteq> [] then byMaster m else Some [])"

text \<open>\<open>options.some((o) => o.store_id === storeId)\<close>\<close>

definition some_store :: "StoreOption list \<Rightarrow> string \<Rightarrow> bool" where
  "some_store options storeId = list_ex (\<lambda>opt. so_store_id opt = storeId) options"

text \<open>\<open>Array.prototype.indexOf\<close>: the first position of the element, or \<open>-1\<close>.\<close>

fun indexOf :: "'a list \<Rightarrow> 'a \<Rightarrow> int" where
  "indexOf [] x = - 1"
| "indexOf (y # ys) x =
     (if y = x then 0
      else (let r = indexOf ys x in if r < 0 then - 1 else r + 1))"

section \<open>The allocation loop of \<open>createOrder\<close>\<close>

text \<open>
  The inner counting loop for one store:
  \<^verbatim>\<open>for (const it of items) { const idx = items.indexOf(it);
    if (assigned.has(idx)) continue; ...; if (options.some(...)) count++; }\<close>
  Calling \<open>some\<close> on \<open>undefined\<close> raises a \<open>TypeError\<close>.
\<close>

fun count_items ::
  "(string \<rightharpoonup> StoreOption list) \<Rightarrow> (ref \<Rightarrow> OrderItem) \<Rightarrow> ref list \<Rightarrow> int set
     \<Rightarrow> string \<Rightarrow> ref list \<Rightarrow> nat \<Rightarrow> error + nat" where
  "count_items byMaster heap items assigned storeId [] cnt = Inr cnt"
| "count_items byMaster heap items assigned storeId (it # rest) cnt =
     (if indexOf items it \<in> assigned
      then count_items byMaster heap items assigned storeId rest cnt
      else (case options_for byMaster (mid_of (heap it)) of
              None \<Rightarrow> Inl TypeError
            | Some options \<Rightarrow>
                count_items byMaster heap items assigned storeId rest
                  (if some_store options storeId then cnt + 1 else cnt)))"

text \<open>
  The loop over the candidate stores: \<open>if (count > bestCount) { bestCount = count;
  bestStore = storeId; }\<close>, starting from \<open>bestStore = null\<close>, \<open>bestCount = 0\<close>.
\<close>

fun best_store ::
  "(string \<rightharpoonup> StoreOption list) \<Rightarrow> (ref \<Rightarrow> OrderItem) \<Rightarrow> ref list \<Rightarrow> int set
     \<Rightarrow> string list \<Rightarrow> string option \<times> nat \<Rightarrow> error + (string option \<times> nat)" where
  "best_store byMaster heap items assigned [] best = Inr best"
| "best_store byMaster heap items assigned (storeId # rest) (bestStore, bestCount) =
     (case count_items byMaster heap items assigned storeId items 0 of
        Inl e \<Rightarrow> Inl e
      | Inr cnt \<Rightarrow>
          best_store byMaster heap items assigned rest
            (if cnt > bestCount then (Some storeId, cnt) else (bestStore, bestCount)))"

text \<open>
  The loop that fills \<open>chunk\<close> for the selected store, over the positions
  \<open>i = 0, ..., items.length - 1\<close>; it adds to \<open>assigned\<close> while it runs.
\<close>

fun assign_items ::
  "(string \<rightharpoonup> StoreOption list) \<Rightarrow> (ref \<Rightarrow> OrderItem) \<Rightarrow> ref list \<Rightarrow> string
     \<Rightarrow> nat list \<Rightarrow> ref list \<times> int set \<Rightarrow> error + (ref list \<times> int set)" where
  "assign_items byMaster heap items bestStore [] acc = Inr acc"
| "assign_items byMaster heap items bestStore (i # is) (part, assigned) =
     (if int i \<in> assigned
      then assign_items byMaster heap items bestStore is (part, assigned)
      else (case options_for byMaster (mid_of (heap (items ! i))) of
              None \<Rightarrow> Inl TypeError
            | Some options \<Rightarrow>
                if some_store options bestStore
                then assign_items byMaster heap items bestStore is
                       (part @ [items ! i], insert (int i) assigned)
                else assign_items byMaster heap items bestStore is (part, assigned)))"

text \<open>
  \<open>storeToItems\<close> is a JavaScript \<open>Map\<close>, which keeps its keys in insertion order:
  an association list whose \<open>set\<close> replaces the value of a present key in place
  and appends a new key at the end.
\<close>

fun map_get :: "(string \<times> 'v) list \<Rightarrow> string \<Rightarrow> 'v option" where
  "map_get [] k = None"
| "map_get ((k', v) # m) k = (if k' = k then Some v else map_get m k)"

fun map_set :: "(string \<times> 'v) list \<Rightarrow> string \<Rightarrow> 'v \<Rightarrow> (string \<times> 'v) list" where
  "map_set [] k v = [(k, v)]"
| "map_set ((k', v') # m) k v = (if k' = k then (k, v) # m else (k', v') # map_set m k v)"

text \<open>\<open>storeToItems.get(bestStore) || []\<close>\<close>

definition get_or_empty :: "(string \<times> 'a list) list \<Rightarrow> string \<Rightarrow> 'a list" where
  "get_or_empty m k = (case map_get m k of None \<Rightarrow> [] | Some v \<Rightarrow> v)"

text \<open>What a store can supply, when the lookup does not raise.\<close>

definition supplies ::
  "(string \<rightharpoonup> StoreOption list) \<Rightarrow> (ref \<Rightarrow> OrderItem) \<Rightarrow> string \<Rightarrow> ref \<Rightarrow> bool" where
  "supplies byMaster heap storeId it =
     (case options_for byMaster (mid_of (heap it)) of
        None \<Rightarrow> False
      | Some options \<Rightarrow> some_store options storeId)"

text \<open>The positions of the cart that are not yet assigned.\<close>

definition unassigned_positions :: "ref list \<Rightarrow> int set \<Rightarrow> nat set" where
  "unassigned_positions items assigned = {i. i < length items \<and> int i \<notin> assigned}"

subsection \<open>The while loop\<close>

text \<open>
  \<^verbatim>\<open>while (assigned.size < items.length) { ...
    if (!bestStore || bestCount === 0) break; ...
    storeToItems.set(bestStore, [...existing, ...chunk]); }\<close>
  The result is the final \<open>storeToItems\<close> and \<open>assigned\<close>, or the error raised
  inside the loop.
\<close>

function alloc_loop ::
  "(string \<rightharpoonup> StoreOption list) \<Rightarrow> (ref \<Rightarrow> OrderItem) \<Rightarrow> ref list \<Rightarrow> string list
     \<Rightarrow> (string \<times> ref list) list \<times> int set
     \<Rightarrow> error + ((string \<times> ref list) list \<times> int set)" where
  "alloc_loop byMaster heap items storeIds (storeToItems, assigned) =
     (if card assigned < length items then
        (case best_store byMaster heap items assigned storeIds (None, 0) of
           Inl e \<Rightarrow> Inl e
         | Inr (bestStore, bestCount) \<Rightarrow>
             if \<not> truthy bestStore \<or> bestCount = 0 then Inr (storeToItems, assigned)
             else (case bestStore of
                     None \<Rightarrow> Inr (storeToItems, assigned)
                   | Some store \<Rightarrow>
                      (case assign_items byMaster heap items store [0..<length items]
                              ([], assigned) of
                         Inl e \<Rightarrow> Inl e
                       | Inr (part, assigned') \<Rightarrow>
                           alloc_loop byMaster heap items storeIds
                             (map_set storeToItems store
                                (get_or_empty storeToItems store @ part), assigned'))))
      else Inr (storeToItems, assigned))"
  by pat_completeness auto

section \<open>Datastore, environment and the steps before the allocation\<close>

text \<open>
  A row of the \<open>products\<close> table (the store inventory), with the columns
  \<open>createOrder\<close> selects and filters on.
\<close>

record ProductRow =
  pr_id :: string
  pr_store_id :: string
  pr_master_product_id :: string
  pr_is_active :: bool

text \<open>
  One select on \<open>products\<close>: the id lists of its \<open>.in(...)\<close> (or \<open>.eq(...)\<close>)
  filters. Every such select in the sources also has \<open>.eq('is_active', true)\<close>. Rows
  are returned in table order.
\<close>

record ProductsQuery =
  q_store_ids :: "string list"
  q_master_ids :: "string list option"

definition run_query :: "ProductRow list \<Rightarrow> ProductsQuery \<Rightarrow> ProductRow list" where
  "run_query table q =
     filter (\<lambda>r. pr_is_active r \<and> pr_store_id r \<in> set (q_store_ids q) \<and>
                 (case q_master_ids q of
                    None \<Rightarrow> True
                  | Some ms \<Rightarrow> pr_master_product_id r \<in> set ms)) table"

record CustomerOrderRow =
  co_id :: nat
  co_customer_id :: string
  co_order_code :: string
  co_status :: string
  co_payment_status :: string
  co_payment_method :: string
  co_subtotal_amount :: real
  co_delivery_fee :: real
  co_discount_amount :: real
  co_total_amount :: real
  co_delivery_address :: string
  co_delivery_latitude :: real
  co_delivery_longitude :: real
  co_notes :: "string option"
  co_placed_at :: "string option"
  co_created_at :: "string option"

record StoreOrderRow =
  sto_id :: nat
  sto_customer_order_id :: nat
  sto_store_id :: string
  sto_subtotal_amount :: real
  sto_delivery_fee :: real
  sto_status :: string

record OrderItemRow =
  oit_store_order_id :: nat
  oit_product_id :: string
  oit_product_name :: string
  oit_unit :: "string option"
  oit_image_url :: "string option"
  oit_unit_price :: real
  oit_quantity :: real

record StatusHistoryRow =
  sh_customer_order_id :: nat
  sh_status :: string
  sh_notes :: string
  sh_created_at :: string

text \<open>
  The four order tables. Row ids are generated by the datastore; \<open>next_id\<close> is the
  next fresh one.
\<close>

record db =
  customer_orders :: "CustomerOrderRow list"
  store_orders :: "StoreOrderRow list"
  order_items :: "OrderItemRow list"
  order_status_history :: "StatusHistoryRow list"
  next_id :: nat

text \<open>
  The datastore calls of \<open>createOrder\<close>; the number is the position \<open>i\<close> of the
  sub-order in the loop over \<open>itemChunks\<close>.
\<close>

datatype db_call =
    SelectAvailability
  | InsertCustomerOrder
  | InsertStoreOrder nat
  | SelectProducts nat
  | InsertOrderItems nat
  | InsertStatusHistory

text \<open>The outcome of the \<open>get_nearby_store_ids\<close> call: it throws, or returns \<open>{ data, error }\<close>.\<close>

datatype nearby_outcome =
    RpcThrows
  | RpcReturns "string list option" "string option"

text \<open>The outcome of the \<open>generate_next_order_number\<close> call: \<open>{ data, error }\<close>.\<close>

datatype order_number_outcome =
    OrderNumberError string
  | OrderNumberData "string option"

text \<open>
  Everything \<open>createOrder\<close> obtains from outside: the geocoder, the two remote
  procedures, the inventory as each select sees it (store owners change it
  concurrently), the error, if any, that each datastore call returns (the client library
  returns errors in \<open>{ error }\<close> and does not throw), the clock, and the values the
  datastore fills in for \<open>placed_at\<close> and \<open>created_at\<close>. It also holds the
  arithmetic of the runtime: \<open>number_add\<close> and \<open>number_mul\<close> are \<open>+\<close> and
  \<open>*\<close> on numbers, which in binary64 round their result.
\<close>

record env =
  geocodeAddress :: "string \<Rightarrow> (real \<times> real) option"
  generate_next_order_number :: order_number_outcome
  get_nearby_store_ids :: "real \<Rightarrow> real \<Rightarrow> real \<Rightarrow> nearby_outcome"
  products_at :: "db_call \<Rightarrow> ProductRow list"
  fault :: "db_call \<Rightarrow> string option"
  now :: string
  default_placed_at :: "string option"
  default_created_at :: "string option"
  number_add :: "real \<Rightarrow> real \<Rightarrow> real"
  number_mul :: "real \<Rightarrow> real \<Rightarrow> real"

record ShippingAddress =
  sa_address :: string
  sa_city :: string
  sa_state :: string
  sa_pincode :: string
  sa_latitude :: "real option"
  sa_longitude :: "real option"

record CreateOrderData =
  d_user_id :: "string option"
  d_customer_name :: string
  d_customer_email :: "string option"
  d_customer_phone :: string
  d_order_status :: string
  d_payment_status :: string
  d_payment_method :: string
  d_order_total :: real
  d_subtotal :: real
  d_delivery_fee :: real
  d_items :: "ref list"
  d_shipping_address :: ShippingAddress

record Order =
  o_id :: nat
  o_user_id :: "string option"
  o_customer_name :: string
  o_customer_email :: "string option"
  o_customer_phone :: string
  o_order_status :: string
  o_payment_status :: string
  o_payment_method :: string
  o_order_total :: real
  o_subtotal :: real
  o_delivery_fee :: real
  o_items :: "ref list"
  o_items_count :: nat
  o_shipping_address :: ShippingAddress
  o_created_at :: string
  o_order_number :: string

text \<open>
  \<^verbatim>\<open>if (error || !storeIds?.length) return []; return storeIds;\<close> inside
  \<^verbatim>\<open>try { ... } catch { return []; }\<close>
\<close>

definition getNearbyStoreIds :: "env \<Rightarrow> real \<Rightarrow> real \<Rightarrow> real \<Rightarrow> string list" where
  "getNearbyStoreIds e lat lng radiusKm =
     (case get_nearby_store_ids e lat lng radiusKm of
        RpcThrows \<Rightarrow> []
      | RpcReturns storeIds err \<Rightarrow>
          (case err of
             Some msg \<Rightarrow> []
           | None \<Rightarrow> (case storeIds of None \<Rightarrow> [] | Some ids \<Rightarrow> ids)))"

text \<open>
  \<open>generateOrderNumber\<close>: the date prefix it sends is not modelled, the outcome of the
  remote procedure is taken from the environment.
\<close>

definition generateOrderNumber :: "env \<Rightarrow> error + string" where
  "generateOrderNumber e =
     (case generate_next_order_number e of
        OrderNumberError msg \<Rightarrow>
          Inl (SequenceGenerationError (''Failed to generate order number: '' @ msg))
      | OrderNumberData data \<Rightarrow>
          (case data of
             None \<Rightarrow> Inl (SequenceGenerationError ''Invalid response from order number generator'')
           | Some code \<Rightarrow>
               if code = []
               then Inl (SequenceGenerationError ''Invalid response from order number generator'')
               else Inr code))"

text \<open>\<open>Array.prototype.join(', ')\<close>\<close>

fun join_comma :: "string list \<Rightarrow> string" where
  "join_comma [] = []"
| "join_comma [x] = x"
| "join_comma (x # y # ys) = x @ '', '' @ join_comma (y # ys)"

definition fullAddress_of :: "ShippingAddress \<Rightarrow> string" where
  "fullAddress_of a =
     join_comma (filter (\<lambda>s. s \<noteq> []) [sa_address a, sa_city a, sa_state a, sa_pincode a])"

text \<open>Use the coordinates of the request when both are numbers, otherwise geocode.\<close>

definition resolve_coordinates :: "env \<Rightarrow> ShippingAddress \<Rightarrow> (real \<times> real) option" where
  "resolve_coordinates e a =
     (case (sa_latitude a, sa_longitude a) of
        (Some lat, Some lng) \<Rightarrow> Some (lat, lng)
      | _ \<Rightarrow> geocodeAddress e (fullAddress_of a))"

text \<open>\<open>.filter((id) => id != null && id !== '')\<close>\<close>

fun valid_ids :: "string option list \<Rightarrow> string list" where
  "valid_ids [] = []"
| "valid_ids (None # rest) = valid_ids rest"
| "valid_ids (Some m # rest) = (if m \<noteq> [] then m # valid_ids rest else valid_ids rest)"

text \<open>\<open>[...new Set(xs)]\<close>: the first occurrence of each element, in order.\<close>

definition set_add :: "'a list \<Rightarrow> 'a \<Rightarrow> 'a list" where
  "set_add xs x = (if x \<in> set xs then xs else xs @ [x])"

definition new_Set :: "'a list \<Rightarrow> 'a list" where
  "new_Set xs = foldl set_add [] xs"

text \<open>
  The availability select of \<open>createOrder\<close>: one query, with the whole of \<open>storeIds\<close>
  and \<open>masterProductIds\<close> in its two \<open>.in(...)\<close> filters.
\<close>

definition availability_queries :: "string list \<Rightarrow> string list \<Rightarrow> ProductsQuery list" where
  "availability_queries storeIds masterProductIds =
     [\<lparr>q_store_ids = storeIds, q_master_ids = Some masterProductIds\<rparr>]"

text \<open>
  Only \<open>data\<close> is read from the answer: on an error \<open>productRows\<close> is \<open>null\<close> and
  the loop runs over \<open>productRows || []\<close>.
\<close>

definition availability_rows :: "env \<Rightarrow> string list \<Rightarrow> string list \<Rightarrow> ProductRow list" where
  "availability_rows e storeIds masterProductIds =
     (case fault e SelectAvailability of
        Some msg \<Rightarrow> []
      | None \<Rightarrow>
          concat (map (run_query (products_at e SelectAvailability))
                    (availability_queries storeIds masterProductIds)))"

text \<open>
  \<^verbatim>\<open>const list = byMaster.get(row.master_product_id) || [];
  list.push({ store_id: row.store_id, product_id: row.id });
  byMaster.set(row.master_product_id, list);\<close>
\<close>

fun build_byMaster ::
  "ProductRow list \<Rightarrow> (string \<rightharpoonup> StoreOption list) \<Rightarrow> (string \<rightharpoonup> StoreOption list)" where
  "build_byMaster [] byMaster = byMaster"
| "build_byMaster (row # rows) byMaster =
     build_byMaster rows
       (byMaster(pr_master_product_id row \<mapsto>
          (case byMaster (pr_master_product_id row) of None \<Rightarrow> [] | Some l \<Rightarrow> l)
            @ [\<lparr>so_store_id = pr_store_id row, so_product_id = pr_id row\<rparr>]))"

text \<open>\<open>items.filter((_, i) => !assigned.has(i))\<close>\<close>

definition unassigned_items :: "ref list \<Rightarrow> int set \<Rightarrow> ref list" where
  "unassigned_items items assigned =
     map (\<lambda>i. items ! i) (filter (\<lambda>i. int i \<notin> assigned) [0..<length items])"

text \<open>
  The allocation as a whole: \<open>storeToItems\<close> and \<open>unassigned\<close> after the loop,
  started with an empty map and an empty set.
\<close>

definition allocate ::
  "(string \<rightharpoonup> StoreOption list) \<Rightarrow> (ref \<Rightarrow> OrderItem) \<Rightarrow> ref list \<Rightarrow> string list
     \<Rightarrow> error + ((string \<times> ref list) list \<times> ref list)" where
  "allocate byMaster heap items storeIds =
     (case alloc_loop byMaster heap items storeIds ([], {}) of
        Inl e \<Rightarrow> Inl e
      | Inr (storeToItems, assigned) \<Rightarrow> Inr (storeToItems, unassigned_items items assigned))"

section \<open>The persistence steps of \<open>createOrder\<close>\<close>

text \<open>\<open>String.prototype.toLowerCase\<close> on the ASCII letters, and \<open>includes\<close>.\<close>

definition toLowerCase :: "string \<Rightarrow> string" where
  "toLowerCase s =
     map (\<lambda>c. if (65::nat) \<le> of_char c \<and> of_char c \<le> (90::nat)
              then char_of (of_char c + (32::nat)) else c) s"

fun starts_with :: "string \<Rightarrow> string \<Rightarrow> bool" where
  "starts_with s [] = True"
| "starts_with [] (c # cs) = False"
| "starts_with (x # xs) (c # cs) = (x = c \<and> starts_with xs cs)"

fun str_includes :: "string \<Rightarrow> string \<Rightarrow> bool" where
  "str_includes [] sub = (sub = [])"
| "str_includes (x # xs) sub = (starts_with (x # xs) sub \<or> str_includes xs sub)"

definition paymentMethodEnum :: "string \<Rightarrow> string" where
  "paymentMethodEnum payment_method =
     (if str_includes (toLowerCase payment_method) ''cash'' \<or> payment_method = ''cod''
      then ''cash_on_delivery'' else ''upi'')"

text \<open>\<open>error?.message || fallback\<close>\<close>

definition message_or :: "string \<Rightarrow> string \<Rightarrow> string" where
  "message_or msg fallback = (if msg \<noteq> [] then msg else fallback)"

text \<open>\<open>chunk.reduce((sum, it) => sum + it.price * it.quantity, 0)\<close>\<close>

definition chunkSubtotal :: "env \<Rightarrow> (ref \<Rightarrow> OrderItem) \<Rightarrow> ref list \<Rightarrow> real" where
  "chunkSubtotal e heap part =
     foldl (\<lambda>sum it. number_add e sum (number_mul e (oi_price (heap it)) (oi_quantity (heap it))))
       0 part"

text \<open>
  \<open>itemChunks.length > 1 ? orderData.delivery_fee / itemChunks.length :
  orderData.delivery_fee\<close>
\<close>

definition chunkDeliveryFee :: "real \<Rightarrow> nat \<Rightarrow> real" where
  "chunkDeliveryFee delivery_fee n = (if n > 1 then delivery_fee / real n else delivery_fee)"

text \<open>\<open>masterToProduct.set(p.master_product_id, p.id)\<close> for every returned row.\<close>

fun build_masterToProduct :: "ProductRow list \<Rightarrow> (string \<rightharpoonup> string) \<Rightarrow> (string \<rightharpoonup> string)" where
  "build_masterToProduct [] m = m"
| "build_masterToProduct (p # ps) m =
     build_masterToProduct ps (m(pr_master_product_id p \<mapsto> pr_id p))"

text \<open>
  \<open>chunk.map((item) => ...)\<close> building the \<open>order_items\<close> rows; it throws at the
  first item without a store product.
\<close>

fun orderItemsPayload ::
  "(ref \<Rightarrow> OrderItem) \<Rightarrow> (string \<rightharpoonup> string) \<Rightarrow> nat \<Rightarrow> ref list \<Rightarrow> error + OrderItemRow list" where
  "orderItemsPayload heap masterToProduct store_order_id [] = Inr []"
| "orderItemsPayload heap masterToProduct store_order_id (it # rest) =
     (let item = heap it;
          productId = (case mid_of item of
                         None \<Rightarrow> None
                       | Some masterId \<Rightarrow>
                           if masterId \<noteq> [] then masterToProduct masterId else None)
      in case productId of
           None \<Rightarrow> Inl (ProductNotAvailableError (oi_name item))
         | Some pid \<Rightarrow>
             if pid = [] then Inl (ProductNotAvailableError (oi_name item))
             else (case orderItemsPayload heap masterToProduct store_order_id rest of
                     Inl e \<Rightarrow> Inl e
                   | Inr rows \<Rightarrow>
                       Inr (\<lparr>oit_store_order_id = store_order_id,
                             oit_product_id = pid,
                             oit_product_name = oi_name item,
                             oit_unit = or_else (oi_unit item) None,
                             oit_image_url = or_else (oi_image item) None,
                             oit_unit_price = oi_price item,
                             oit_quantity = oi_quantity item\<rparr> # rows)))"

text \<open>
  The loop \<open>for (let i = 0; i < itemChunks.length; i++)\<close> over the entries of
  \<open>storeToItems\<close>, in insertion order: \<open>n\<close> is \<open>itemChunks.length\<close>, \<open>i\<close> the
  position of the first remaining entry. The result is the error thrown, if any, and
  the datastore as the loop leaves it.
\<close>

fun store_orders_loop ::
  "env \<Rightarrow> (ref \<Rightarrow> OrderItem) \<Rightarrow> real \<Rightarrow> nat \<Rightarrow> nat \<Rightarrow> nat \<Rightarrow> (string \<times> ref list) list \<Rightarrow> db
     \<Rightarrow> error option \<times> db" where
  "store_orders_loop e heap delivery_fee customer_order_id n i [] d = (None, d)"
| "store_orders_loop e heap delivery_fee customer_order_id n i ((storeId, part) # rest) d =
     (if part = [] \<or> storeId = []
      then store_orders_loop e heap delivery_fee customer_order_id n (i + 1) rest d
      else (case fault e (InsertStoreOrder i) of
              Some msg \<Rightarrow> (Some (PersistenceError (message_or msg ''Failed to create store order'')), d)
            | None \<Rightarrow>
               (let storeOrder = \<lparr>sto_id = next_id d,
                                  sto_customer_order_id = customer_order_id,
                                  sto_store_id = storeId,
                                  sto_subtotal_amount = chunkSubtotal e heap part,
                                  sto_delivery_fee = chunkDeliveryFee delivery_fee n,
                                  sto_status = ''pending_at_store''\<rparr>;
                    d1 = d\<lparr>store_orders := store_orders d @ [storeOrder],
                           next_id := next_id d + 1\<rparr>;
                    masterProductIds = valid_ids (map (\<lambda>it. mid_of (heap it)) part)
                in if masterProductIds = []
                   then store_orders_loop e heap delivery_fee customer_order_id n (i + 1) rest d1
                   else (case fault e (SelectProducts i) of
                           Some msg \<Rightarrow> (Some ProductVerificationError, d1)
                         | None \<Rightarrow>
                            (let products = run_query (products_at e (SelectProducts i))
                                              \<lparr>q_store_ids = [storeId],
                                               q_master_ids = Some masterProductIds\<rparr>;
                                 masterToProduct = build_masterToProduct products Map.empty
                             in case orderItemsPayload heap masterToProduct (sto_id storeOrder) part of
                                  Inl err \<Rightarrow> (Some err, d1)
                                | Inr payload \<Rightarrow>
                                   (case fault e (InsertOrderItems i) of
                                      Some msg \<Rightarrow>
                                        (Some (PersistenceError
                                                 (message_or msg ''Failed to create order items'')), d1)
                                    | None \<Rightarrow>
                                        store_orders_loop e heap delivery_fee customer_order_id n
                                          (i + 1) rest
                                          (d1\<lparr>order_items := order_items d1 @ payload\<rparr>)))))))"

text \<open>
  The insert into \<open>order_status_history\<close>: its answer is not read, so an error
  leaves the table as it is and \<open>createOrder\<close> goes on.
\<close>

definition insert_status_history :: "env \<Rightarrow> nat \<Rightarrow> db \<Rightarrow> db" where
  "insert_status_history e customer_order_id d =
     (case fault e InsertStatusHistory of
        Some msg \<Rightarrow> d
      | None \<Rightarrow>
          d\<lparr>order_status_history := order_status_history d @
               [\<lparr>sh_customer_order_id = customer_order_id,
                 sh_status = ''pending_at_store'',
                 sh_notes = ''Order placed'',
                 sh_created_at = now e\<rparr>]\<rparr>)"

text \<open>\<open>customerOrder.placed_at || customerOrder.created_at || new Date().toISOString()\<close>\<close>

definition created_at_of :: "env \<Rightarrow> CustomerOrderRow \<Rightarrow> string" where
  "created_at_of e row =
     (case or_else (co_placed_at row) (co_created_at row) of
        None \<Rightarrow> now e
      | Some t \<Rightarrow> if t \<noteq> [] then t else now e)"

text \<open>
  Steps 6 to 9: the \<open>customer_orders\<close> insert, the loop over the sub-orders, the
  status history, and the returned aggregate.
\<close>

definition persist_order ::
  "env \<Rightarrow> (ref \<Rightarrow> OrderItem) \<Rightarrow> CreateOrderData \<Rightarrow> string \<Rightarrow> string \<Rightarrow> string
     \<Rightarrow> real \<times> real \<Rightarrow> (string \<times> ref list) list \<Rightarrow> db \<Rightarrow> (error + Order) \<times> db" where
  "persist_order e heap orderData user_id orderCode fullAddress geocoded storeToItems d =
     (case fault e InsertCustomerOrder of
        Some msg \<Rightarrow> (Inl (PersistenceError (message_or msg ''Failed to create order'')), d)
      | None \<Rightarrow>
         (let customerOrder =
                \<lparr>co_id = next_id d,
                 co_customer_id = user_id,
                 co_order_code = orderCode,
                 co_status = ''pending_at_store'',
                 co_payment_status = d_payment_status orderData,
                 co_payment_method = paymentMethodEnum (d_payment_method orderData),
                 co_subtotal_amount = d_subtotal orderData,
                 co_delivery_fee = d_delivery_fee orderData,
                 co_discount_amount = 0,
                 co_total_amount = d_order_total orderData,
                 co_delivery_address = fullAddress,
                 co_delivery_latitude = fst geocoded,
                 co_delivery_longitude = snd geocoded,
                 co_notes = None,
                 co_placed_at = default_placed_at e,
                 co_created_at = default_created_at e\<rparr>;
              d1 = d\<lparr>customer_orders := customer_orders d @ [customerOrder],
                     next_id := next_id d + 1\<rparr>
          in case store_orders_loop e heap (d_delivery_fee orderData) (co_id customerOrder)
                    (length storeToItems) 0 storeToItems d1 of
               (Some err, d2) \<Rightarrow> (Inl err, d2)
             | (None, d2) \<Rightarrow>
                 (Inr \<lparr>o_id = co_id customerOrder,
                       o_user_id = d_user_id orderData,
                       o_customer_name = d_customer_name orderData,
                       o_customer_email = d_customer_email orderData,
                       o_customer_phone = d_customer_phone orderData,
                       o_order_status = ''placed'',
                       o_payment_status = d_payment_status orderData,
                       o_payment_method = d_payment_method orderData,
                       o_order_total = d_order_total orderData,
                       o_subtotal = d_subtotal orderData,
                       o_delivery_fee = d_delivery_fee orderData,
                       o_items = d_items orderData,
                       o_items_count = length (d_items orderData),
                       o_shipping_address = d_shipping_address orderData,
                       o_created_at = created_at_of e customerOrder,
                       o_order_number = orderCode\<rparr>,
                  insert_status_history e (co_id customerOrder) d2)))"

section \<open>\<open>createOrder\<close>\<close>

text \<open>
  The whole function, from the check of the user id to the returned order. The result
  is the order or the error thrown, and the datastore afterwards.
\<close>

definition createOrder ::
  "env \<Rightarrow> (ref \<Rightarrow> OrderItem) \<Rightarrow> CreateOrderData \<Rightarrow> db \<Rightarrow> (error + Order) \<times> db" where
  "createOrder e heap orderData d =
     (case d_user_id orderData of
        None \<Rightarrow> (Inl UserIdRequired, d)
      | Some user_id \<Rightarrow>
         if user_id = [] then (Inl UserIdRequired, d)
         else (case resolve_coordinates e (d_shipping_address orderData) of
                 None \<Rightarrow> (Inl AddressResolutionError, d)
               | Some geocoded \<Rightarrow>
                  (case generateOrderNumber e of
                     Inl err \<Rightarrow> (Inl err, d)
                   | Inr orderCode \<Rightarrow>
                      (let storeIds = getNearbyStoreIds e (fst geocoded) (snd geocoded) 50
                       in if storeIds = [] then (Inl NoStoresAvailableError, d)
                          else
                           (let items = d_items orderData;
                                masterProductIds =
                                  new_Set (valid_ids (map (\<lambda>it. mid_of (heap it)) items))
                            in if masterProductIds = [] then (Inl NoValidProducts, d)
                               else
                                (let productRows = availability_rows e storeIds masterProductIds;
                                     byMaster = build_byMaster productRows Map.empty
                                 in case allocate byMaster heap items storeIds of
                                      Inl err \<Rightarrow> (Inl err, d)
                                    | Inr (storeToItems, unassigned) \<Rightarrow>
                                        if unassigned \<noteq> []
                                        then (Inl (ItemsUnavailableError
                                                     (map (\<lambda>u. oi_name (heap u)) unassigned)), d)
                                        else persist_order e heap orderData user_id orderCode
                                               (fullAddress_of (d_shipping_address orderData))
                                               geocoded storeToItems d))))))"

section \<open>Paging of the inventory selects\<close>

text \<open>
  \<^verbatim>\<open>const IN_FILTER_CHUNK_SIZE = 100;
  function chunk<T>(arr: T[], size: number): T[][] {
    const out: T[][] = [];
    for (let i = 0; i < arr.length; i += size) out.push(arr.slice(i, i + size));
    return out; }\<close>
  With \<open>size = 0\<close> the loop does not end: the loop is a partial function, \<open>None\<close>
  when it does not return.
\<close>

definition IN_FILTER_CHUNK_SIZE :: nat where
  "IN_FILTER_CHUNK_SIZE = 100"

definition slice :: "'a list \<Rightarrow> nat \<Rightarrow> nat \<Rightarrow> 'a list" where
  "slice arr i j = take (j - i) (drop i arr)"

partial_function (option) chunk_loop ::
  "'a list \<Rightarrow> nat \<Rightarrow> nat \<Rightarrow> 'a list list \<Rightarrow> 'a list list option" where
  "chunk_loop arr sz i out =
     (if i < length arr then chunk_loop arr sz (i + sz) (out @ [slice arr i (i + sz)])
      else Some out)"

declare chunk_loop.simps [code]

definition chunk :: "'a list \<Rightarrow> nat \<Rightarrow> 'a list list option" where
  "chunk arr sz = chunk_loop arr sz 0 []"

text \<open>
  \<open>fetchProductRows\<close> (the product listing) has two branches. When \<open>storeIds\<close> is
  a list that is not empty, it sends one select per page of
  \<open>chunk(storeIds, IN_FILTER_CHUNK_SIZE)\<close>: these are the selects of that branch.
\<close>

definition fetchProductRows_queries :: "string list \<Rightarrow> ProductsQuery list option" where
  "fetchProductRows_queries storeIds =
     (case chunk storeIds IN_FILTER_CHUNK_SIZE of
        None \<Rightarrow> None
      | Some storeChunks \<Rightarrow>
          Some (map (\<lambda>ids. \<lparr>q_store_ids = ids, q_master_ids = None\<rparr>) storeChunks))"

text \<open>
  \<^verbatim>\<open>for (const ids of storeChunks) { const { data, error } = await ...in('store_id', ids);
    if (error) throw new Error(`Database error: ${error.message}`);
    if (data?.length) allRows.push(...data); }\<close>
  \<open>faults\<close> gives the error a select returns.
\<close>

fun fetch_chunks ::
  "(ProductsQuery \<Rightarrow> string option) \<Rightarrow> ProductRow list \<Rightarrow> ProductsQuery list
     \<Rightarrow> ProductRow list \<Rightarrow> string + ProductRow list" where
  "fetch_chunks faults table [] allRows = Inr allRows"
| "fetch_chunks faults table (q # qs) allRows =
     (case faults q of
        Some msg \<Rightarrow> Inl (''Database error: '' @ msg)
      | None \<Rightarrow> fetch_chunks faults table qs (allRows @ run_query table q))"

text \<open>
  Otherwise (\<open>storeIds\<close> is \<open>null\<close> or empty) it reads all active rows, in ranges of
  \<open>batchSize\<close>: \<open>.eq('is_active', true).range(from, from + batchSize - 1)\<close>, until a
  range comes back short or empty. \<open>range_faults\<close> gives the error of the select that
  starts at a position.
\<close>

definition batchSize :: nat where
  "batchSize = 500"

definition select_range :: "ProductRow list \<Rightarrow> nat \<Rightarrow> nat \<Rightarrow> ProductRow list" where
  "select_range table lo hi = take (hi + 1 - lo) (drop lo (filter pr_is_active table))"

function fetch_ranges ::
  "(nat \<Rightarrow> string option) \<Rightarrow> ProductRow list \<Rightarrow> nat \<Rightarrow> ProductRow list
     \<Rightarrow> string + ProductRow list" where
  "fetch_ranges range_faults table start allRows =
     (case range_faults start of
        Some msg \<Rightarrow> Inl (''Database error: '' @ msg)
      | None \<Rightarrow>
          (let data = select_range table start (start + batchSize - 1)
           in if data \<noteq> []
              then (if length data = batchSize
                    then fetch_ranges range_faults table (start + batchSize) (allRows @ data)
                    else Inr (allRows @ data))
              else Inr allRows))"
  by pat_completeness auto

text \<open>
  The whole function; \<open>storeIds\<close> is \<open>string[] | null\<close>. The result is \<open>None\<close>
  only if \<open>chunk\<close> does not return. The joined \<open>master_products\<close> columns are left
  out of the rows.
\<close>

definition fetchProductRows ::
  "(ProductsQuery \<Rightarrow> string option) \<Rightarrow> (nat \<Rightarrow> string option) \<Rightarrow> ProductRow list
     \<Rightarrow> string list option \<Rightarrow> (string + ProductRow list) option" where
  "fetchProductRows faults range_faults table storeIds =
     (case storeIds of
        None \<Rightarrow> Some (fetch_ranges range_faults table 0 [])
      | Some ids \<Rightarrow>
          if ids \<noteq> []
          then (case fetchProductRows_queries ids of
                  None \<Rightarrow> None
                | Some storeChunks \<Rightarrow> Some (fetch_chunks faults table storeChunks []))
          else Some (fetch_ranges range_faults table 0 []))"

text \<open>A hundred and one store ids: \<open>s\<close>, \<open>ss\<close>, \<open>sss\<close>, ...\<close>

definition many_store_ids :: "string list" where
  "many_store_ids = map (\<lambda>n. replicate (Suc n) CHR ''s'') [0..<101]"

section \<open>\<open>signupComplete\<close>\<close>

text \<open>
  The request body; every field may be missing. The two tables the handler writes, and
  the three datastore calls it makes.
\<close>

record SignupBody =
  b_phone :: "string option"
  b_ownerName :: "string option"
  b_storeName :: "string option"
  b_storeAddress :: "string option"
  b_radiusKm :: "real option"
  b_email :: "string option"
  b_latitude :: "real option"
  b_longitude :: "real option"

record AppUserRow =
  au_id :: nat
  au_name :: string
  au_phone :: string
  au_email :: "string option"
  au_password_hash :: "string option"
  au_role :: string
  au_is_activated :: bool

record StoreRow =
  st_owner_id :: nat
  st_name :: string
  st_phone :: string
  st_address :: string
  st_latitude :: real
  st_longitude :: real
  st_is_active :: bool

record signup_db =
  app_users :: "AppUserRow list"
  stores :: "StoreRow list"
  next_user_id :: nat

datatype signup_call = InsertAppUser | InsertStore | DeleteAppUser

text \<open>\<open>const { password_hash: _, ...userWithoutPassword } = newUser;\<close>\<close>

record UserWithoutPassword =
  up_id :: nat
  up_name :: string
  up_phone :: string
  up_email :: "string option"
  up_role :: string
  up_is_activated :: bool

text \<open>
  The response: \<open>res.status(code).json({ success: false, error })\<close>, or
  \<open>res.json({ success: true, message: 'Registration complete', token, user })\<close>.
\<close>

datatype signup_response =
    ErrorResponse nat string
  | SuccessResponse string UserWithoutPassword

text \<open>
  \<open>String.prototype.trim\<close> removes white space and line terminators from both ends:
  the code points U+0009 to U+000D, U+0020, U+00A0, U+1680, U+2000 to U+200A, U+2028,
  U+2029, U+202F, U+205F, U+3000 and U+FEFF, here in their UTF-8 encodings.
\<close>

definition white_space :: "string list" where
  "white_space =
     map (\<lambda>n. [char_of n]) [9, 10, 11, 12, 13, 32 :: nat]
     @ [[CHR 0xC2, CHR 0xA0], [CHR 0xE1, CHR 0x9A, CHR 0x80]]
     @ map (\<lambda>n. [CHR 0xE2, CHR 0x80, char_of n]) [0x80, 0x81, 0x82, 0x83, 0x84, 0x85, 0x86,
         0x87, 0x88, 0x89, 0x8A, 0xA8, 0xA9, 0xAF :: nat]
     @ [[CHR 0xE2, CHR 0x81, CHR 0x9F], [CHR 0xE3, CHR 0x80, CHR 0x80],
        [CHR 0xEF, CHR 0xBB, CHR 0xBF]]"

text \<open>The rest of \<open>s\<close> after the first of the words \<open>ws\<close> it starts with, if any.\<close>

fun strip_any :: "string list \<Rightarrow> string \<Rightarrow> string option" where
  "strip_any [] s = None"
| "strip_any (w # ws) s =
     (if w \<noteq> [] \<and> starts_with s w then Some (drop (length w) s) else strip_any ws s)"

function strip_leading :: "string list \<Rightarrow> string \<Rightarrow> string" where
  "strip_leading ws s =
     (case strip_any ws s of None \<Rightarrow> s | Some rest \<Rightarrow> strip_leading ws rest)"
  by pat_completeness auto

definition trim :: "string \<Rightarrow> string" where
  "trim s = rev (strip_leading (map rev white_space) (rev (strip_leading white_space s)))"

text \<open>
  The handler, with the \<open>is_active\<close> flag of the new store as a parameter: the two
  copies of the controller in the sources differ in it only. \<open>faults\<close> gives the error
  each datastore call returns, \<open>token\<close> is \<open>crypto.randomUUID()\<close>. The answer of the
  compensating delete is not read.
\<close>

definition signupComplete_with ::
  "bool \<Rightarrow> (signup_call \<Rightarrow> string option) \<Rightarrow> string \<Rightarrow> SignupBody \<Rightarrow> signup_db
     \<Rightarrow> signup_response \<times> signup_db" where
  "signupComplete_with store_is_active faults token body d =
     (case (b_phone body, b_ownerName body, b_storeName body) of
        (Some phone, Some ownerName, Some storeName) \<Rightarrow>
          if phone = [] \<or> ownerName = [] \<or> storeName = []
          then (ErrorResponse 400 ''Phone, owner name and store name are required'', d)
          else
           (let name = trim ownerName;
                storeNameTrim = trim storeName;
                address = (if truthy (b_storeAddress body)
                           then map_option trim (b_storeAddress body) else None);
                lat = b_latitude body;
                lng = b_longitude body;
                emailVal = (if truthy (b_email body)
                            then or_else (map_option trim (b_email body)) None else None)
            in case faults InsertAppUser of
                 Some msg \<Rightarrow> (ErrorResponse 500 (message_or msg ''Failed to create account''), d)
               | None \<Rightarrow>
                  (let newUser = \<lparr>au_id = next_user_id d, au_name = name, au_phone = phone,
                                   au_email = emailVal, au_password_hash = None,
                                   au_role = ''store_owner'', au_is_activated = True\<rparr>;
                       d1 = d\<lparr>app_users := app_users d @ [newUser],
                              next_user_id := next_user_id d + 1\<rparr>
                   in case faults InsertStore of
                        Some msg \<Rightarrow>
                          (ErrorResponse 500 (message_or msg ''Failed to create store''),
                           (case faults DeleteAppUser of
                              Some msg' \<Rightarrow> d1
                            | None \<Rightarrow>
                                d1\<lparr>app_users :=
                                     filter (\<lambda>u. au_id u \<noteq> au_id newUser) (app_users d1)\<rparr>))
                      | None \<Rightarrow>
                          (SuccessResponse token
                             \<lparr>up_id = au_id newUser, up_name = au_name newUser,
                              up_phone = au_phone newUser, up_email = au_email newUser,
                              up_role = au_role newUser,
                              up_is_activated = au_is_activated newUser\<rparr>,
                           d1\<lparr>stores := stores d1 @
                                [\<lparr>st_owner_id = au_id newUser, st_name = storeNameTrim,
                                  st_phone = phone,
                                  st_address = (case address of None \<Rightarrow> [] | Some a \<Rightarrow> a),
                                  st_latitude = (case lat of None \<Rightarrow> 0 | Some v \<Rightarrow> v),
                                  st_longitude = (case lng of None \<Rightarrow> 0 | Some v \<Rightarrow> v),
                                  st_is_active = store_is_active\<rparr>]\<rparr>)))
      | _ \<Rightarrow> (ErrorResponse 400 ''Phone, owner name and store name are required'', d))"

text \<open>The controller beside the order service starts the store offline, its other copy online.\<close>

definition signupComplete ::
  "(signup_call \<Rightarrow> string option) \<Rightarrow> string \<Rightarrow> SignupBody \<Rightarrow> signup_db
     \<Rightarrow> signup_response \<times> signup_db" where
  "signupComplete = signupComplete_with False"

definition signupComplete_online ::
  "(signup_call \<Rightarrow> string option) \<Rightarrow> string \<Rightarrow> SignupBody \<Rightarrow> signup_db
     \<Rightarrow> signup_response \<times> signup_db" where
  "signupComplete_online = signupComplete_with True"

text \<open>A signup request, a datastore with one earlier user, and a failing \<open>stores\<close> insert.\<close>

definition signup_body :: SignupBody where
  "signup_body =
     \<lparr>b_phone = Some ''+919999990001'', b_ownerName = Some '' Asha '',
      b_storeName = Some ''Asha Stores'', b_storeAddress = Some ''Garia'',
      b_radiusKm = None, b_email = None, b_latitude = Some 22, b_longitude = Some 88\<rparr>"

definition signup_db0 :: signup_db where
  "signup_db0 =
     \<lparr>app_users = [\<lparr>au_id = 0, au_name = ''Seed'', au_phone = ''+910000000000'',
                    au_email = None, au_password_hash = None, au_role = ''shopkeeper'',
                    au_is_activated = True\<rparr>],
      stores = [], next_user_id = 1\<rparr>"

definition stores_insert_fails :: "signup_call \<Rightarrow> string option" where
  "stores_insert_fails c = (if c = InsertStore then Some ''permission denied for table stores'' else None)"

text \<open>The same, with a datastore that also refuses the delete that follows.\<close>

definition stores_insert_and_delete_fail :: "signup_call \<Rightarrow> string option" where
  "stores_insert_and_delete_fail c =
     (if c = InsertStore then Some ''permission denied for table stores''
      else if c = DeleteAppUser then Some ''connection lost''
      else None)"

section \<open>A concrete marketplace\<close>

text \<open>
  Two stores and four products: \<open>S1\<close> carries \<open>A\<close> and \<open>B\<close>, \<open>S2\<close> carries
  \<open>B\<close> and \<open>C\<close>, nobody carries \<open>D\<close>. The cart objects are the references
  \<open>0\<close> (\<open>A\<close>), \<open>1\<close> (\<open>B\<close>), \<open>2\<close> (\<open>C\<close>) and \<open>3\<close> (\<open>D\<close>).
\<close>

definition cart_line :: "string \<Rightarrow> real \<Rightarrow> real \<Rightarrow> OrderItem" where
  "cart_line m p q =
     \<lparr>oi_product_id = Some m, oi_id = None, oi_name = m, oi_price = p, oi_quantity = q,
      oi_image = None, oi_unit = None\<rparr>"

definition abc_heap :: "ref \<Rightarrow> OrderItem" where
  "abc_heap r =
     (if r = 0 then cart_line ''A'' 10 1
      else if r = 1 then cart_line ''B'' 20 2
      else if r = 2 then cart_line ''C'' 5 3
      else cart_line ''D'' 1 1)"

definition inventory_row :: "string \<Rightarrow> string \<Rightarrow> string \<Rightarrow> ProductRow" where
  "inventory_row i s m =
     \<lparr>pr_id = i, pr_store_id = s, pr_master_product_id = m, pr_is_active = True\<rparr>"

definition abc_inventory :: "ProductRow list" where
  "abc_inventory =
     [inventory_row ''p1'' ''S1'' ''A'', inventory_row ''p2'' ''S1'' ''B'',
      inventory_row ''p3'' ''S2'' ''B'', inventory_row ''p4'' ''S2'' ''C'']"

text \<open>
  The environment: both stores are in range; \<open>faults\<close> says which calls fail. The
  prices and quantities of the marketplace are small whole numbers, on which binary64
  addition and multiplication are exact.
\<close>

definition abc_env :: "(db_call \<Rightarrow> string option) \<Rightarrow> env" where
  "abc_env faults =
     \<lparr>geocodeAddress = (\<lambda>a. None),
      generate_next_order_number = OrderNumberData (Some ''NN20250601-0001''),
      get_nearby_store_ids = (\<lambda>lat lng radius. RpcReturns (Some [''S1'', ''S2'']) None),
      products_at = (\<lambda>c. abc_inventory),
      fault = faults,
      now = ''2025-06-01T10:00:00.000Z'',
      default_placed_at = None,
      default_created_at = None,
      number_add = (+),
      number_mul = (*)\<rparr>"

definition abc_order :: "ref list \<Rightarrow> real \<Rightarrow> real \<Rightarrow> CreateOrderData" where
  "abc_order cart subtotal fee =
     \<lparr>d_user_id = Some ''u1'', d_customer_name = ''N'', d_customer_email = None,
      d_customer_phone = ''9'', d_order_status = ''placed'', d_payment_status = ''pending'',
      d_payment_method = ''cod'', d_order_total = subtotal + fee, d_subtotal = subtotal,
      d_delivery_fee = fee, d_items = cart,
      d_shipping_address =
        \<lparr>sa_address = ''1 Main Rd'', sa_city = ''Kolkata'', sa_state = ''WB'',
         sa_pincode = ''700084'', sa_latitude = Some 22, sa_longitude = Some 88\<rparr>\<rparr>"

definition empty_db :: db where
  "empty_db =
     \<lparr>customer_orders = [], store_orders = [], order_items = [],
      order_status_history = [], next_id = 0\<rparr>"

definition no_faults :: "db_call \<Rightarrow> string option" where
  "no_faults c = None"

definition fault_at :: "db_call \<Rightarrow> db_call \<Rightarrow> string option" where
  "fault_at failing c = (if c = failing then Some ''connection lost'' else None)"

text \<open>The availability map \<open>createOrder\<close> builds for the cart \<open>{A, B, C}\<close>.\<close>

definition abc_byMaster :: "string \<rightharpoonup> StoreOption list" where
  "abc_byMaster =
     build_byMaster
       (availability_rows (abc_env no_faults) [''S1'', ''S2''] [''A'', ''B'', ''C'']) Map.empty"

text \<open>An environment of the concrete marketplace whose store locator answers \<open>outcome\<close>.\<close>

definition locator_env :: "nearby_outcome \<Rightarrow> env" where
  "locator_env outcome =
     (abc_env no_faults)\<lparr>get_nearby_store_ids := (\<lambda>lat lng radius. outcome)\<rparr>"

section \<open>Notions used in the proofs\<close>

text \<open>
  Two positions of the cart that hold the same object are assigned together.
\<close>

definition alias_closed :: "ref list \<Rightarrow> int set \<Rightarrow> bool" where
  "alias_closed items A =
     (\<forall>i < length items. \<forall>j < length items. items ! i = items ! j \<longrightarrow> (int i \<in> A) = (int j \<in> A))"

text \<open>All positions of the cart, and the items at the assigned positions.\<close>

definition all_positions :: "ref list \<Rightarrow> int set" where
  "all_positions items = int ` {..<length items}"

definition assigned_items :: "ref list \<Rightarrow> int set \<Rightarrow> ref list" where
  "assigned_items items A = map (\<lambda>i. items ! i) (filter (\<lambda>i. int i \<in> A) [0..<length items])"

text \<open>
  What every round of the loop keeps: \<open>assigned\<close> holds positions of the cart and
  respects aliases, the lists of \<open>storeToItems\<close> hold exactly the items at the
  assigned positions, there is one entry per store, with a store id and a list that are
  not empty and items the store supplies, and the lists of two stores share no item.
\<close>

definition alloc_inv ::
  "(string \<rightharpoonup> StoreOption list) \<Rightarrow> (ref \<Rightarrow> OrderItem) \<Rightarrow> ref list
     \<Rightarrow> (string \<times> ref list) list \<Rightarrow> int set \<Rightarrow> bool" where
  "alloc_inv byMaster heap items sti A =
     (A \<subseteq> all_positions items \<and> alias_closed items A
      \<and> mset (concat (map snd sti)) = mset (assigned_items items A)
      \<and> distinct (map fst sti)
      \<and> (\<forall>(s, l) \<in> set sti. s \<noteq> [] \<and> l \<noteq> [] \<and> (\<forall>r \<in> set l. supplies byMaster heap s r))
      \<and> (\<forall>(s1, l1) \<in> set sti. \<forall>(s2, l2) \<in> set sti. s1 \<noteq> s2 \<longrightarrow> set l1 \<inter> set l2 = {}))"

text \<open>
  The reduce of a subtotal over the price and the quantity of each line, and what ties
  the entries of \<open>storeToItems\<close> to the \<open>store_orders\<close> rows and to the
  \<open>order_items\<close> rows written for each of them: the store, the subtotal over the
  store's items, the share of the fee, the customer order, and for each sub-order its
  own line items with the store order's id and the price and quantity of the store's
  items.
\<close>

definition lineSubtotal :: "env \<Rightarrow> (real \<times> real) list \<Rightarrow> real" where
  "lineSubtotal e lines = foldl (\<lambda>sum (p, q). number_add e sum (number_mul e p q)) 0 lines"

definition suborders_of ::
  "env \<Rightarrow> (ref \<Rightarrow> OrderItem) \<Rightarrow> real \<Rightarrow> nat \<Rightarrow> nat \<Rightarrow> (string \<times> ref list) list
     \<Rightarrow> StoreOrderRow list \<Rightarrow> OrderItemRow list list \<Rightarrow> bool" where
  "suborders_of e heap fee n coid sti rows pages =
     (map sto_store_id rows = map fst sti
      \<and> map sto_subtotal_amount rows = map (\<lambda>(s, l). chunkSubtotal e heap l) sti
      \<and> map sto_delivery_fee rows = map (\<lambda>x. chunkDeliveryFee fee n) sti
      \<and> map sto_customer_order_id rows = map (\<lambda>x. coid) sti
      \<and> map (map oit_store_order_id) pages
          = map (\<lambda>(row, (s, l)). map (\<lambda>it. sto_id row) l) (zip rows sti)
      \<and> map (map (\<lambda>i. (oit_unit_price i, oit_quantity i))) pages
          = map (\<lambda>(s, l). map (\<lambda>it. (oi_price (heap it), oi_quantity (heap it))) l) sti)"

text \<open>The sum of price times quantity over a list of cart items, in exact arithmetic.\<close>

definition cart_total :: "(ref \<Rightarrow> OrderItem) \<Rightarrow> ref list \<Rightarrow> real" where
  "cart_total heap items = sum_list (map (\<lambda>it. oi_price (heap it) * oi_quantity (heap it)) items)"

section \<open>The allocation loop terminates\<close>

lemma indexOf_bounds:
  "x \<in> set xs \<Longrightarrow> 0 \<le> indexOf xs x \<and> indexOf xs x < int (length xs)"
  by (induction xs) (auto simp: Let_def)

lemma indexOf_nth: "x \<in> set xs \<Longrightarrow> xs ! nat (indexOf xs x) = x"
proof (induction xs)
  case Nil
  then show ?case by simp
next
  case (Cons y ys)
  show ?case
  proof (cases "y = x")
    case True
    then show ?thesis by simp
  next
    case False
    with Cons.prems have mem: "x \<in> set ys" by simp
    from indexOf_bounds [OF mem] have nonneg: "0 \<le> indexOf ys x" by simp
    then have "nat (indexOf ys x + 1) = Suc (nat (indexOf ys x))" by simp
    with False nonneg Cons.IH [OF mem] show ?thesis by (simp add: Let_def)
  qed
qed

lemma count_items_positive:
  "count_items byMaster heap items assigned storeId its c = Inr c' \<Longrightarrow> c < c' \<Longrightarrow>
     \<exists>it \<in> set its. indexOf items it \<notin> assigned \<and> supplies byMaster heap storeId it"
proof (induction its arbitrary: c)
  case Nil
  then show ?case by simp
next
  case (Cons it rest)
  show ?case
  proof (cases "indexOf items it \<in> assigned")
    case True
    with Cons.prems have "count_items byMaster heap items assigned storeId rest c = Inr c'"
      by simp
    from Cons.IH [OF this Cons.prems(2)] show ?thesis by auto
  next
    case False
    with Cons.prems(1) obtain options where
      opts: "options_for byMaster (mid_of (heap it)) = Some options"
      and rest: "count_items byMaster heap items assigned storeId rest
                   (if some_store options storeId then c + 1 else c) = Inr c'"
      by (auto split: option.splits)
    show ?thesis
    proof (cases "some_store options storeId")
      case True
      with opts False show ?thesis by (auto simp: supplies_def)
    next
      case no: False
      with rest have "count_items byMaster heap items assigned storeId rest c = Inr c'"
        by simp
      from Cons.IH [OF this Cons.prems(2)] show ?thesis by auto
    qed
  qed
qed

lemma best_store_result:
  "best_store byMaster heap items assigned sids (b, c) = Inr (b', c') \<Longrightarrow>
     (b', c') = (b, c) \<or>
     (\<exists>s \<in> set sids. b' = Some s \<and> c < c' \<and>
        count_items byMaster heap items assigned s items 0 = Inr c')"
proof (induction sids arbitrary: b c)
  case Nil
  then show ?case by simp
next
  case (Cons s rest)
  from Cons.prems obtain n where
    cnt: "count_items byMaster heap items assigned s items 0 = Inr n"
    and rest: "best_store byMaster heap items assigned rest
                 (if n > c then (Some s, n) else (b, c)) = Inr (b', c')"
    by (auto split: sum.splits)
  show ?case
  proof (cases "n > c")
    case True
    with rest have "best_store byMaster heap items assigned rest (Some s, n) = Inr (b', c')"
      by simp
    from Cons.IH [OF this] True cnt show ?thesis by auto
  next
    case False
    with rest have "best_store byMaster heap items assigned rest (b, c) = Inr (b', c')"
      by simp
    from Cons.IH [OF this] show ?thesis by auto
  qed
qed

lemma assign_items_assigned:
  "assign_items byMaster heap items s is (part, A) = Inr (part', A') \<Longrightarrow>
     A' = A \<union> int ` {i \<in> set is. supplies byMaster heap s (items ! i)}"
proof (induction "is" arbitrary: part A)
  case Nil
  then show ?case by simp
next
  case (Cons i rest)
  show ?case
  proof (cases "int i \<in> A")
    case True
    with Cons.prems have "assign_items byMaster heap items s rest (part, A) = Inr (part', A')"
      by simp
    from Cons.IH [OF this] True show ?thesis by auto
  next
    case False
    with Cons.prems obtain options where
      opts: "options_for byMaster (mid_of (heap (items ! i))) = Some options"
      and rest: "(if some_store options s
                  then assign_items byMaster heap items s rest
                         (part @ [items ! i], insert (int i) A)
                  else assign_items byMaster heap items s rest (part, A)) = Inr (part', A')"
      by (auto split: option.splits)
    show ?thesis
    proof (cases "some_store options s")
      case True
      with rest have "assign_items byMaster heap items s rest
                        (part @ [items ! i], insert (int i) A) = Inr (part', A')"
        by simp
      from Cons.IH [OF this] True opts show ?thesis by (auto simp: supplies_def)
    next
      case no: False
      with rest have "assign_items byMaster heap items s rest (part, A) = Inr (part', A')"
        by simp
      from Cons.IH [OF this] no opts show ?thesis by (auto simp: supplies_def)
    qed
  qed
qed

lemma round_makes_progress:
  assumes best: "best_store byMaster heap items A storeIds (None, 0) = Inr (Some s, c)"
    and pos: "c \<noteq> 0"
    and asg: "assign_items byMaster heap items s [0..<length items] (part, A) = Inr (part', A')"
  shows "unassigned_positions items A' \<subset> unassigned_positions items A"
proof -
  from best_store_result [OF best] pos
  have cnt: "count_items byMaster heap items A s items 0 = Inr c" and "0 < c"
    by auto
  from count_items_positive [OF this] obtain it where
    it: "it \<in> set items" "indexOf items it \<notin> A" "supplies byMaster heap s it"
    by blast
  define k where "k = nat (indexOf items it)"
  from indexOf_bounds [OF it(1)] have k: "k < length items" "int k = indexOf items it"
    by (auto simp: k_def nat_less_iff)
  from indexOf_nth [OF it(1)] have nth: "items ! k = it" by (simp add: k_def)
  from assign_items_assigned [OF asg]
  have A': "A' = A \<union> int ` {i \<in> set [0..<length items]. supplies byMaster heap s (items ! i)}" .
  have "k \<in> {i \<in> set [0..<length items]. supplies byMaster heap s (items ! i)}"
    using k(1) nth it(3) by simp
  then have "int k \<in> A'" unfolding A' by blast
  moreover from k it(2) have "k \<in> unassigned_positions items A"
    by (simp add: unassigned_positions_def)
  moreover from A' have "A \<subseteq> A'" by auto
  ultimately show ?thesis
    by (auto simp: unassigned_positions_def)
qed

termination alloc_loop
proof (relation "measure (\<lambda>(byMaster, heap, items, storeIds, storeToItems, assigned).
                           card (unassigned_positions items assigned))")
  show "wf (measure (\<lambda>(byMaster, heap, items, storeIds, storeToItems, assigned).
                           card (unassigned_positions items assigned)))"
    by simp
next
  fix byMaster :: "string \<rightharpoonup> StoreOption list" and heap :: "ref \<Rightarrow> OrderItem"
    and items :: "ref list" and storeIds :: "string list"
    and storeToItems :: "(string \<times> ref list) list" and assigned assigned' :: "int set"
    and best :: "string option \<times> nat" and bestStore :: "string option" and bestCount :: nat
    and store :: string and res :: "ref list \<times> int set" and part :: "ref list"
  assume "best_store byMaster heap items assigned storeIds (None, 0) = Inr best"
    and "(bestStore, bestCount) = best"
    and "\<not> (\<not> truthy bestStore \<or> bestCount = 0)"
    and "bestStore = Some store"
    and "assign_items byMaster heap items store [0..<length items] ([], assigned) = Inr res"
    and "(part, assigned') = res"
  then have "unassigned_positions items assigned' \<subset> unassigned_positions items assigned"
    using round_makes_progress [of byMaster heap items assigned storeIds store bestCount
        "[]" part assigned']
    by auto
  moreover have "finite (unassigned_positions items assigned)"
    by (simp add: unassigned_positions_def)
  ultimately have "card (unassigned_positions items assigned')
      < card (unassigned_positions items assigned)"
    by (rule psubset_card_mono [rotated])
  then show "((byMaster, heap, items, storeIds,
                map_set storeToItems store (get_or_empty storeToItems store @ part), assigned'),
              (byMaster, heap, items, storeIds, storeToItems, assigned))
             \<in> measure (\<lambda>(byMaster, heap, items, storeIds, storeToItems, assigned).
                           card (unassigned_positions items assigned))"
    by simp
qed

declare alloc_loop.simps [simp del]

section \<open>The other loops terminate\<close>

lemma starts_with_nonempty: "starts_with s w \<Longrightarrow> w \<noteq> [] \<Longrightarrow> s \<noteq> []"
  by (cases w) auto

lemma strip_any_shorter: "strip_any ws s = Some rest \<Longrightarrow> length rest < length s"
proof (induction ws)
  case Nil
  then show ?case by simp
next
  case (Cons w ws)
  show ?case
  proof (cases "w \<noteq> [] \<and> starts_with s w")
    case True
    with Cons.prems have rest: "rest = drop (length w) s" by simp
    from True have "s \<noteq> []" by (auto dest: starts_with_nonempty)
    with True rest show ?thesis by simp
  next
    case False
    with Cons.prems have "strip_any ws s = Some rest" by auto
    then show ?thesis by (rule Cons.IH)
  qed
qed

termination strip_leading
  by (relation "measure (\<lambda>(ws, s). length s)") (simp_all add: strip_any_shorter)

declare strip_leading.simps [simp del]

termination fetch_ranges
  by (relation "measure (\<lambda>(range_faults, table, start, allRows).
                           length (filter pr_is_active table) - start)")
     (auto simp: select_range_def batchSize_def)

declare fetch_ranges.simps [simp del]

section \<open>What the allocation loop keeps\<close>

lemma supplies_options_defined:
  "supplies byMaster heap s r \<Longrightarrow> options_for byMaster (mid_of (heap r)) \<noteq> None"
  by (auto simp: supplies_def split: option.splits)

lemma count_items_defined:
  "\<forall>it \<in> set its. options_for byMaster (mid_of (heap it)) \<noteq> None \<Longrightarrow>
     count_items byMaster heap items A s its c
       = Inr (c + length (filter (\<lambda>it. indexOf items it \<notin> A \<and> supplies byMaster heap s it) its))"
  by (induction its arbitrary: c) (auto simp: supplies_def split: option.splits)

lemma best_store_defined:
  "\<forall>it \<in> set items. options_for byMaster (mid_of (heap it)) \<noteq> None \<Longrightarrow>
     \<exists>b' c'. best_store byMaster heap items A sids (b, c) = Inr (b', c') \<and> c \<le> c'
        \<and> (\<forall>s \<in> set sids.
              length (filter (\<lambda>it. indexOf items it \<notin> A \<and> supplies byMaster heap s it) items) \<le> c')"
proof (induction sids arbitrary: b c)
  case Nil
  then show ?case by simp
next
  case (Cons s rest)
  let ?n = "length (filter (\<lambda>it. indexOf items it \<notin> A \<and> supplies byMaster heap s it) items)"
  have cnt: "count_items byMaster heap items A s items 0 = Inr ?n"
    using count_items_defined [OF Cons.prems, of items A s 0] by simp
  show ?case
  proof (cases "?n > c")
    case True
    from Cons.IH [OF Cons.prems, of "Some s" ?n] obtain b' c' where
      r: "best_store byMaster heap items A rest (Some s, ?n) = Inr (b', c')" "?n \<le> c'"
        "\<forall>s \<in> set rest.
           length (filter (\<lambda>it. indexOf items it \<notin> A \<and> supplies byMaster heap s it) items) \<le> c'"
      by blast
    with True cnt show ?thesis by auto
  next
    case False
    from Cons.IH [OF Cons.prems, of b c] obtain b' c' where
      r: "best_store byMaster heap items A rest (b, c) = Inr (b', c')" "c \<le> c'"
        "\<forall>s \<in> set rest.
           length (filter (\<lambda>it. indexOf items it \<notin> A \<and> supplies byMaster heap s it) items) \<le> c'"
      by blast
    with False cnt show ?thesis by auto
  qed
qed

lemma assign_items_defined:
  "\<forall>i \<in> set is. options_for byMaster (mid_of (heap (items ! i))) \<noteq> None \<Longrightarrow>
     \<exists>p' A'. assign_items byMaster heap items s is (p, A) = Inr (p', A')"
  by (induction "is" arbitrary: p A) (auto split: option.splits)

lemma assign_items_part:
  "assign_items byMaster heap items s is (p, A) = Inr (p', A') \<Longrightarrow> distinct is \<Longrightarrow>
     p' = p @ map (\<lambda>i. items ! i)
                (filter (\<lambda>i. int i \<notin> A \<and> supplies byMaster heap s (items ! i)) is)"
proof (induction "is" arbitrary: p A)
  case Nil
  then show ?case by simp
next
  case (Cons i rest)
  from Cons.prems(2) have fresh: "i \<notin> set rest" and dist: "distinct rest" by simp_all
  show ?case
  proof (cases "int i \<in> A")
    case True
    with Cons.prems have "assign_items byMaster heap items s rest (p, A) = Inr (p', A')"
      by simp
    from Cons.IH [OF this dist] True show ?thesis by simp
  next
    case False
    with Cons.prems(1) obtain options where
      opts: "options_for byMaster (mid_of (heap (items ! i))) = Some options"
      and rest: "(if some_store options s
                  then assign_items byMaster heap items s rest (p @ [items ! i], insert (int i) A)
                  else assign_items byMaster heap items s rest (p, A)) = Inr (p', A')"
      by (auto split: option.splits)
    show ?thesis
    proof (cases "some_store options s")
      case True
      with rest have "assign_items byMaster heap items s rest
                        (p @ [items ! i], insert (int i) A) = Inr (p', A')"
        by simp
      from Cons.IH [OF this dist]
      have "p' = (p @ [items ! i]) @ map (\<lambda>i. items ! i)
          (filter (\<lambda>j. int j \<notin> insert (int i) A \<and> supplies byMaster heap s (items ! j)) rest)" .
      moreover have "filter (\<lambda>j. int j \<notin> insert (int i) A \<and> supplies byMaster heap s (items ! j)) rest
          = filter (\<lambda>j. int j \<notin> A \<and> supplies byMaster heap s (items ! j)) rest"
        using fresh by (intro filter_cong) auto
      ultimately show ?thesis using True False opts by (simp add: supplies_def)
    next
      case no: False
      with rest have "assign_items byMaster heap items s rest (p, A) = Inr (p', A')"
        by simp
      from Cons.IH [OF this dist] no False opts show ?thesis by (simp add: supplies_def)
    qed
  qed
qed

lemma full_when_loop_ends:
  assumes "A \<subseteq> all_positions items" and "\<not> card A < length items"
  shows "A = all_positions items"
proof -
  have "finite (all_positions items)" by (simp add: all_positions_def)
  moreover have "card (all_positions items) = length items"
    by (simp add: all_positions_def card_image)
  ultimately show ?thesis using assms by (intro card_seteq) auto
qed

lemma exists_unassigned:
  assumes "A \<subseteq> all_positions items" and "card A < length items"
  shows "\<exists>k < length items. int k \<notin> A"
proof (rule ccontr)
  assume "\<not> ?thesis"
  then have "all_positions items \<subseteq> A" by (auto simp: all_positions_def)
  with assms(1) have "A = all_positions items" by auto
  then have "card A = length items" by (simp add: all_positions_def card_image)
  with assms(2) show False by simp
qed

lemma alias_closed_indexOf:
  assumes "alias_closed items A" and "k < length items" and "int k \<notin> A"
  shows "indexOf items (items ! k) \<notin> A"
proof -
  have mem: "items ! k \<in> set items" using assms(2) by simp
  define j where "j = nat (indexOf items (items ! k))"
  from indexOf_bounds [OF mem] have j: "j < length items" "int j = indexOf items (items ! k)"
    by (auto simp: j_def nat_less_iff)
  from indexOf_nth [OF mem] have "items ! j = items ! k" by (simp add: j_def)
  with assms(1,2) j(1) have "(int j \<in> A) = (int k \<in> A)"
    unfolding alias_closed_def by blast
  with assms(3) have "int j \<notin> A" by simp
  with j(2) show ?thesis by simp
qed

lemma alias_closed_round:
  assumes "alias_closed items A"
  shows "alias_closed items (A \<union> int ` {i \<in> set [0..<length items]. supplies byMaster heap s (items ! i)})"
  unfolding alias_closed_def
proof (intro allI impI)
  fix i j
  assume i: "i < length items" and j: "j < length items" and eq: "items ! i = items ! j"
  let ?S = "{i \<in> set [0..<length items]. supplies byMaster heap s (items ! i)}"
  have mem: "(int k \<in> int ` ?S) = (k \<in> ?S)" for k
    by (rule inj_image_mem_iff) simp
  have "(i \<in> ?S) = supplies byMaster heap s (items ! i)"
    using i by simp
  with mem [of i] have "(int i \<in> int ` ?S) = supplies byMaster heap s (items ! i)"
    by (rule trans)
  moreover have "(j \<in> ?S) = supplies byMaster heap s (items ! j)"
    using j by simp
  with mem [of j] have "(int j \<in> int ` ?S) = supplies byMaster heap s (items ! j)"
    by (rule trans)
  moreover have "(int i \<in> A) = (int j \<in> A)"
    using assms i j eq unfolding alias_closed_def by blast
  ultimately show "(int i \<in> A \<union> int ` ?S) = (int j \<in> A \<union> int ` ?S)"
    using eq by (simp only: Un_iff)
qed

lemma map_fst_map_set:
  "map fst (map_set m k v) = (if k \<in> fst ` set m then map fst m else map fst m @ [k])"
  by (induction m) force+

lemma set_map_set:
  "distinct (map fst m) \<Longrightarrow> (k', l) \<in> set (map_set m k v) \<Longrightarrow>
     (k' = k \<and> l = v) \<or> (k' \<noteq> k \<and> (k', l) \<in> set m)"
proof (induction m)
  case Nil
  then show ?case by simp
next
  case (Cons a m)
  obtain k1 v1 where a: "a = (k1, v1)" by (cases a)
  show ?case
  proof (cases "k1 = k")
    case True
    with Cons.prems a have "(k', l) = (k, v) \<or> (k', l) \<in> set m" by simp
    moreover from Cons.prems(1) a True have "k \<notin> fst ` set m" by simp
    ultimately show ?thesis by force
  next
    case False
    with Cons.prems a have "(k', l) = (k1, v1) \<or> (k', l) \<in> set (map_set m k v)" by simp
    then show ?thesis
    proof
      assume "(k', l) = (k1, v1)"
      with False a show ?thesis by simp
    next
      assume "(k', l) \<in> set (map_set m k v)"
      moreover from Cons.prems(1) have "distinct (map fst m)" by simp
      ultimately have "(k' = k \<and> l = v) \<or> (k' \<noteq> k \<and> (k', l) \<in> set m)"
        by (rule Cons.IH [rotated])
      then show ?thesis by auto
    qed
  qed
qed

lemma get_or_empty_mem:
  "get_or_empty m k = [] \<or> (k, get_or_empty m k) \<in> set m"
  by (induction m) (auto simp: get_or_empty_def split: if_splits option.splits)

lemma concat_map_set:
  "mset (concat (map snd (map_set m k (get_or_empty m k @ part))))
     = mset (concat (map snd m)) + mset part"
  by (induction m) (auto simp: get_or_empty_def)

lemma mset_filter_split:
  "mset (map f (filter (\<lambda>i. Q i \<or> P i) xs))
     = mset (map f (filter Q xs)) + mset (map f (filter (\<lambda>i. \<not> Q i \<and> P i) xs))"
  by (induction xs) auto

lemma assigned_items_round:
  "mset (assigned_items items
           (A \<union> int ` {i \<in> set [0..<length items]. P (items ! i)}))
     = mset (assigned_items items A)
       + mset (map (\<lambda>i. items ! i) (filter (\<lambda>i. int i \<notin> A \<and> P (items ! i)) [0..<length items]))"
proof -
  let ?S = "{i \<in> set [0..<length items]. P (items ! i)}"
  have mem: "(int k \<in> int ` ?S) = (k \<in> ?S)" for k
    by (rule inj_image_mem_iff) simp
  have "filter (\<lambda>i. int i \<in> A \<union> int ` ?S) [0..<length items]
      = filter (\<lambda>i. int i \<in> A \<or> P (items ! i)) [0..<length items]"
  proof (rule filter_cong [OF refl])
    fix i
    assume "i \<in> set [0..<length items]"
    then have "(i \<in> ?S) = P (items ! i)" by simp
    with mem [of i] show "(int i \<in> A \<union> int ` ?S) = (int i \<in> A \<or> P (items ! i))"
      by (simp only: Un_iff)
  qed
  then show ?thesis
    by (simp only: assigned_items_def mset_filter_split)
qed

lemma assigned_unassigned_items:
  "mset (assigned_items items A) + mset (unassigned_items items A) = mset items"
proof -
  have "mset (map (\<lambda>i. items ! i) (filter (\<lambda>i. int i \<in> A \<or> True) [0..<length items]))
      = mset (assigned_items items A)
        + mset (map (\<lambda>i. items ! i) (filter (\<lambda>i. int i \<notin> A \<and> True) [0..<length items]))"
    unfolding assigned_items_def by (rule mset_filter_split)
  then show ?thesis
    by (simp add: unassigned_items_def map_nth)
qed

lemma alloc_inv_init: "alloc_inv byMaster heap items [] {}"
  by (simp add: alloc_inv_def alias_closed_def assigned_items_def)

lemma round_positions:
  "A \<subseteq> all_positions items \<Longrightarrow>
     A \<union> int ` {i \<in> set [0..<length items]. P (items ! i)} \<subseteq> all_positions items"
proof -
  assume sub: "A \<subseteq> all_positions items"
  have "{i \<in> set [0..<length items]. P (items ! i)} \<subseteq> {..<length items}" by auto
  then have "int ` {i \<in> set [0..<length items]. P (items ! i)} \<subseteq> all_positions items"
    unfolding all_positions_def by (rule image_mono)
  with sub show ?thesis by (rule Un_least)
qed

lemma round_part_nonempty:
  assumes best: "best_store byMaster heap items A storeIds (None, 0) = Inr (Some s, c)"
    and pos: "c \<noteq> 0"
    and asg: "assign_items byMaster heap items s [0..<length items] ([], A) = Inr (part, A')"
  shows "part \<noteq> []"
proof
  assume empty: "part = []"
  from assign_items_part [OF asg]
  have "filter (\<lambda>i. int i \<notin> A \<and> supplies byMaster heap s (items ! i)) [0..<length items] = []"
    using empty by simp
  then have none: "\<forall>i < length items. supplies byMaster heap s (items ! i) \<longrightarrow> int i \<in> A"
    by (auto simp: filter_empty_conv)
  from assign_items_assigned [OF asg]
  have A': "A' = A \<union> int ` {i \<in> set [0..<length items]. supplies byMaster heap s (items ! i)}" .
  have "int ` {i \<in> set [0..<length items]. supplies byMaster heap s (items ! i)} \<subseteq> A"
    using none by (intro image_subsetI) simp
  with A' have "A' = A" by blast
  with round_makes_progress [OF best pos asg] show False by simp
qed

lemma round_inv:
  assumes inv: "alloc_inv byMaster heap items sti A"
    and s: "s \<noteq> []"
    and asg: "assign_items byMaster heap items s [0..<length items] ([], A) = Inr (part, A')"
    and ne: "part \<noteq> []"
  shows "alloc_inv byMaster heap items (map_set sti s (get_or_empty sti s @ part)) A'"
proof -
  let ?sti' = "map_set sti s (get_or_empty sti s @ part)"
  from assign_items_assigned [OF asg]
  have A': "A' = A \<union> int ` {i \<in> set [0..<length items]. supplies byMaster heap s (items ! i)}" .
  from assign_items_part [OF asg]
  have part: "part = map (\<lambda>i. items ! i)
      (filter (\<lambda>i. int i \<notin> A \<and> supplies byMaster heap s (items ! i)) [0..<length items])"
    by simp
  from inv have sub: "A \<subseteq> all_positions items"
    and closed: "alias_closed items A"
    and ms: "mset (concat (map snd sti)) = mset (assigned_items items A)"
    and dist: "distinct (map fst sti)"
    and entries: "\<forall>(s, l) \<in> set sti. s \<noteq> [] \<and> l \<noteq> [] \<and> (\<forall>r \<in> set l. supplies byMaster heap s r)"
    and disj: "\<forall>(s1, l1) \<in> set sti. \<forall>(s2, l2) \<in> set sti. s1 \<noteq> s2 \<longrightarrow> set l1 \<inter> set l2 = {}"
    by (simp_all add: alloc_inv_def)
  have 1: "A' \<subseteq> all_positions items"
    unfolding A' using sub by (rule round_positions)
  have 2: "alias_closed items A'"
    unfolding A' using closed by (rule alias_closed_round)
  have "mset (concat (map snd ?sti')) = mset (assigned_items items A) + mset part"
    using ms by (simp only: concat_map_set)
  also have "\<dots> = mset (assigned_items items A')"
    unfolding A' assigned_items_round using part by simp
  finally have 3: "mset (concat (map snd ?sti')) = mset (assigned_items items A')" .
  have 4: "distinct (map fst ?sti')"
    using dist by (simp add: map_fst_map_set)
  have part_sup: "\<forall>r \<in> set part. supplies byMaster heap s r"
    unfolding part by simp
  have part_new: "\<forall>r \<in> set part. \<exists>i < length items. items ! i = r \<and> int i \<notin> A"
    unfolding part by auto
  have "set (concat (map snd sti)) = set (assigned_items items A)"
    using ms by (rule mset_eq_setD)
  then have old: "\<exists>j < length items. items ! j = r \<and> int j \<in> A"
    if "(s2, l2) \<in> set sti" "r \<in> set l2" for s2 l2 r
  proof -
    assume eq: "set (concat (map snd sti)) = set (assigned_items items A)"
    from that have "r \<in> set (concat (map snd sti))" by force
    with eq have "r \<in> set (assigned_items items A)" by simp
    then show ?thesis by (auto simp: assigned_items_def)
  qed
  have fresh: "r \<notin> set l2" if "(s2, l2) \<in> set sti" "r \<in> set part" for s2 l2 r
  proof
    assume "r \<in> set l2"
    from old [OF that(1) this] obtain j where j: "j < length items" "items ! j = r" "int j \<in> A"
      by blast
    from part_new that(2) obtain i where i: "i < length items" "items ! i = r" "int i \<notin> A"
      by blast
    from closed i(1) j(1) i(2) j(2) have "(int i \<in> A) = (int j \<in> A)"
      unfolding alias_closed_def by blast
    with i(3) j(3) show False by simp
  qed
  have existing: "get_or_empty sti s = [] \<or> (s, get_or_empty sti s) \<in> set sti"
    by (rule get_or_empty_mem)
  have 5: "\<forall>(s', l) \<in> set ?sti'. s' \<noteq> [] \<and> l \<noteq> [] \<and> (\<forall>r \<in> set l. supplies byMaster heap s' r)"
  proof -
    have "s' \<noteq> [] \<and> l \<noteq> [] \<and> (\<forall>r \<in> set l. supplies byMaster heap s' r)"
      if "(s', l) \<in> set ?sti'" for s' l
    proof -
      from set_map_set [OF dist that]
      consider (new) "s' = s" "l = get_or_empty sti s @ part" | (old) "s' \<noteq> s" "(s', l) \<in> set sti"
        by blast
      then show ?thesis
      proof cases
        case new
        have "\<forall>r \<in> set (get_or_empty sti s). supplies byMaster heap s r"
          using existing entries by fastforce
        with new s ne part_sup show ?thesis by auto
      next
        case old
        with entries show ?thesis by fastforce
      qed
    qed
    then show ?thesis by fast
  qed
  have 6: "\<forall>(s1, l1) \<in> set ?sti'. \<forall>(s2, l2) \<in> set ?sti'. s1 \<noteq> s2 \<longrightarrow> set l1 \<inter> set l2 = {}"
  proof -
    have new_old: "set (get_or_empty sti s @ part) \<inter> set l2 = {}"
      if "s2 \<noteq> s" "(s2, l2) \<in> set sti" for s2 l2
    proof -
      have "set (get_or_empty sti s) \<inter> set l2 = {}"
        using existing disj that by fastforce
      moreover have "set part \<inter> set l2 = {}"
        using fresh [OF that(2)] by blast
      ultimately show ?thesis by auto
    qed
    have "set l1 \<inter> set l2 = {}"
      if "(s1, l1) \<in> set ?sti'" "(s2, l2) \<in> set ?sti'" "s1 \<noteq> s2" for s1 l1 s2 l2
    proof -
      from set_map_set [OF dist that(1)]
      consider (new1) "s1 = s" "l1 = get_or_empty sti s @ part"
        | (old1) "s1 \<noteq> s" "(s1, l1) \<in> set sti"
        by blast
      then show ?thesis
      proof cases
        case new1
        with set_map_set [OF dist that(2)] that(3)
        have "s2 \<noteq> s" "(s2, l2) \<in> set sti" by auto
        from new_old [OF this] new1 show ?thesis by simp
      next
        case old1
        from set_map_set [OF dist that(2)]
        consider (new2) "s2 = s" "l2 = get_or_empty sti s @ part"
          | (old2) "s2 \<noteq> s" "(s2, l2) \<in> set sti"
          by blast
        then show ?thesis
        proof cases
          case new2
          from new_old [OF old1] new2 show ?thesis by blast
        next
          case old2
          with old1 disj that(3) show ?thesis by fastforce
        qed
      qed
    qed
    then show ?thesis by fast
  qed
  from 1 2 3 4 5 6 show ?thesis
    unfolding alloc_inv_def by blast
qed

lemma alloc_loop_inv:
  "alloc_inv byMaster heap items (fst st) (snd st) \<Longrightarrow>
     alloc_loop byMaster heap items storeIds st = Inr st' \<Longrightarrow>
     alloc_inv byMaster heap items (fst st') (snd st')"
proof (induction byMaster heap items storeIds st rule: alloc_loop.induct)
  case (1 byMaster heap items storeIds sti A)
  from "1.prems"(1) have inv: "alloc_inv byMaster heap items sti A" by simp
  show ?case
  proof (cases "card A < length items")
    case False
    with "1.prems"(2) have "st' = (sti, A)" by (simp add: alloc_loop.simps)
    with inv show ?thesis by simp
  next
    case True
    with "1.prems"(2) obtain b c where
      best: "best_store byMaster heap items A storeIds (None, 0) = Inr (b, c)"
      by (auto simp: alloc_loop.simps split: sum.splits)
    show ?thesis
    proof (cases "\<not> truthy b \<or> c = 0")
      case stop: True
      with "1.prems"(2) True best have "st' = (sti, A)" by (simp add: alloc_loop.simps)
      with inv show ?thesis by simp
    next
      case go: False
      then obtain s where b: "b = Some s" and s: "s \<noteq> []" and c: "c \<noteq> 0"
        by (auto simp: truthy_def split: option.splits)
      from "1.prems"(2) True best go b obtain part A1 where
        asg: "assign_items byMaster heap items s [0..<length items] ([], A) = Inr (part, A1)"
        and rec: "alloc_loop byMaster heap items storeIds
                    (map_set sti s (get_or_empty sti s @ part), A1) = Inr st'"
        by (auto simp: alloc_loop.simps split: sum.splits)
      from best b have best': "best_store byMaster heap items A storeIds (None, 0) = Inr (Some s, c)"
        by simp
      from round_part_nonempty [OF best' c asg] have ne: "part \<noteq> []" .
      from round_inv [OF inv s asg ne]
      have inv': "alloc_inv byMaster heap items
          (fst (map_set sti s (get_or_empty sti s @ part), A1))
          (snd (map_set sti s (get_or_empty sti s @ part), A1))"
        by simp
      from "1.IH" [OF True best refl go b asg refl inv' rec] show ?thesis .
    qed
  qed
qed

lemma alloc_loop_all_assigned:
  "[] \<notin> set storeIds \<Longrightarrow>
   \<forall>r \<in> set items. \<exists>s \<in> set storeIds. supplies byMaster heap s r \<Longrightarrow>
   snd st \<subseteq> all_positions items \<Longrightarrow> alias_closed items (snd st) \<Longrightarrow>
     \<exists>sti'. alloc_loop byMaster heap items storeIds st = Inr (sti', all_positions items)"
proof (induction byMaster heap items storeIds st rule: alloc_loop.induct)
  case (1 byMaster heap items storeIds sti A)
  note ids = "1.prems"(1) and carried = "1.prems"(2)
  from "1.prems"(3,4) have sub: "A \<subseteq> all_positions items" and closed: "alias_closed items A"
    by simp_all
  show ?case
  proof (cases "card A < length items")
    case False
    from full_when_loop_ends [OF sub False] have "A = all_positions items" .
    with False show ?thesis by (simp add: alloc_loop.simps)
  next
    case True
    have defined: "\<forall>it \<in> set items. options_for byMaster (mid_of (heap it)) \<noteq> None"
      using carried supplies_options_defined by blast
    from best_store_defined [OF defined, of A storeIds None 0] obtain b c where
      best: "best_store byMaster heap items A storeIds (None, 0) = Inr (b, c)"
      and bound: "\<forall>s \<in> set storeIds.
          length (filter (\<lambda>it. indexOf items it \<notin> A \<and> supplies byMaster heap s it) items) \<le> c"
      by blast
    from exists_unassigned [OF sub True] obtain k where
      k: "k < length items" "int k \<notin> A" by blast
    from k(1) carried obtain s0 where
      s0: "s0 \<in> set storeIds" "supplies byMaster heap s0 (items ! k)"
      by (meson nth_mem)
    from alias_closed_indexOf [OF closed k] have "indexOf items (items ! k) \<notin> A" .
    with s0(2) k(1)
    have "items ! k \<in> set (filter (\<lambda>it. indexOf items it \<notin> A \<and> supplies byMaster heap s0 it) items)"
      by simp
    then have "0 < length (filter (\<lambda>it. indexOf items it \<notin> A \<and> supplies byMaster heap s0 it) items)"
      by (simp only: length_pos_if_in_set)
    moreover from bound s0(1)
    have "length (filter (\<lambda>it. indexOf items it \<notin> A \<and> supplies byMaster heap s0 it) items) \<le> c"
      by (rule bspec)
    ultimately have c: "c \<noteq> 0" by linarith
    from best_store_result [OF best] c obtain s where
      s: "s \<in> set storeIds" "b = Some s" by auto
    with ids have ne: "s \<noteq> []" by auto
    with s(2) c have go: "\<not> (\<not> truthy b \<or> c = 0)" by (simp add: truthy_def)
    have "\<forall>i \<in> set [0..<length items]. options_for byMaster (mid_of (heap (items ! i))) \<noteq> None"
      using defined by simp
    from assign_items_defined [OF this, of s "[]" A] obtain part A1 where
      asg: "assign_items byMaster heap items s [0..<length items] ([], A) = Inr (part, A1)"
      by blast
    from assign_items_assigned [OF asg]
    have A1: "A1 = A \<union> int ` {i \<in> set [0..<length items]. supplies byMaster heap s (items ! i)}" .
    have sub': "snd (map_set sti s (get_or_empty sti s @ part), A1) \<subseteq> all_positions items"
      unfolding A1 snd_conv using sub by (rule round_positions)
    have closed': "alias_closed items (snd (map_set sti s (get_or_empty sti s @ part), A1))"
      unfolding A1 snd_conv using closed by (rule alias_closed_round)
    from "1.IH" [OF True best refl go s(2) asg refl ids carried sub' closed']
    obtain sti' where
      "alloc_loop byMaster heap items storeIds
         (map_set sti s (get_or_empty sti s @ part), A1) = Inr (sti', all_positions items)"
      by blast
    moreover have "alloc_loop byMaster heap items storeIds (sti, A)
        = alloc_loop byMaster heap items storeIds
            (map_set sti s (get_or_empty sti s @ part), A1)"
      using True best go s(2) asg by (simp add: alloc_loop.simps [of _ _ _ _ sti A])
    ultimately show ?thesis by simp
  qed
qed

lemma unassigned_items_none: "unassigned_items items (all_positions items) = []"
  by (simp add: unassigned_items_def all_positions_def filter_empty_conv)

section \<open>Properties of the allocation\<close>

text \<open>
  C5. With the candidate stores in the order \<open>[S1, S2]\<close>, \<open>S1\<close> carrying \<open>A\<close> and
  \<open>B\<close>, \<open>S2\<close> carrying \<open>B\<close> and \<open>C\<close>, and the cart \<open>{A, B, C}\<close>, the
  allocation gives \<open>A\<close> and \<open>B\<close> to \<open>S1\<close> and \<open>C\<close> to \<open>S2\<close>: two store
  assignments and no unassigned item.
\<close>

theorem allocate_abc:
  "allocate abc_byMaster abc_heap [0, 1, 2] [''S1'', ''S2'']
     = Inr ([(''S1'', [0, 1]), (''S2'', [2])], [])"
  by code_simp

lemma allocate_inv:
  assumes "allocate byMaster heap items storeIds = Inr (sti, un)"
  shows "\<exists>A. alloc_inv byMaster heap items sti A \<and> un = unassigned_items items A"
proof -
  from assms obtain A where
    loop: "alloc_loop byMaster heap items storeIds ([], {}) = Inr (sti, A)"
    and un: "un = unassigned_items items A"
    by (auto simp: allocate_def split: sum.splits)
  have "alloc_inv byMaster heap items (fst ([], {})) (snd ([], {}))"
    by (simp add: alloc_inv_init)
  from alloc_loop_inv [OF this loop] un show ?thesis by auto
qed

lemma supplies_iff:
  "supplies byMaster heap s r =
     (\<exists>m options. mid_of (heap r) = Some m \<and> m \<noteq> [] \<and> byMaster m = Some options
        \<and> s \<in> so_store_id ` set options)"
  by (auto simp: supplies_def options_for_def some_store_def list_ex_iff
      split: option.splits if_splits)

lemma alloc_loop_keys:
  "alloc_loop byMaster heap items storeIds st = Inr st' \<Longrightarrow>
     set (map fst (fst st')) \<subseteq> set (map fst (fst st)) \<union> set storeIds"
proof (induction byMaster heap items storeIds st rule: alloc_loop.induct)
  case (1 byMaster heap items storeIds sti A)
  show ?case
  proof (cases "card A < length items")
    case False
    with "1.prems" have "st' = (sti, A)" by (simp add: alloc_loop.simps)
    then show ?thesis by simp
  next
    case True
    with "1.prems" obtain b c where
      best: "best_store byMaster heap items A storeIds (None, 0) = Inr (b, c)"
      by (auto simp: alloc_loop.simps split: sum.splits)
    show ?thesis
    proof (cases "\<not> truthy b \<or> c = 0")
      case stop: True
      with "1.prems" True best have "st' = (sti, A)" by (simp add: alloc_loop.simps)
      then show ?thesis by simp
    next
      case go: False
      then obtain s where b: "b = Some s" and c: "c \<noteq> 0"
        by (auto simp: truthy_def split: option.splits)
      from "1.prems" True best go b obtain part A1 where
        asg: "assign_items byMaster heap items s [0..<length items] ([], A) = Inr (part, A1)"
        and rec: "alloc_loop byMaster heap items storeIds
                    (map_set sti s (get_or_empty sti s @ part), A1) = Inr st'"
        by (auto simp: alloc_loop.simps split: sum.splits)
      from best_store_result [OF best] b c have s: "s \<in> set storeIds" by auto
      from "1.IH" [OF True best refl go b asg refl rec]
      have "set (map fst (fst st'))
          \<subseteq> set (map fst (map_set sti s (get_or_empty sti s @ part))) \<union> set storeIds"
        by simp
      moreover have "set (map fst (map_set sti s (get_or_empty sti s @ part)))
          \<subseteq> set (map fst sti) \<union> {s}"
        by (simp only: map_fst_map_set) auto
      ultimately show ?thesis using s by auto
    qed
  qed
qed

text \<open>
  C3. When every cart item is carried by at least one candidate store (\<open>byMaster\<close>
  lists that store under the item's master product id), the allocation loop ends
  without an error, leaves no item unassigned, and has assigned every item: the lists
  of the stores together hold each position of the cart exactly once, there is one
  list per store, each for a candidate store, not empty, and of items that store
  supplies. Store ids are the primary keys of the \<open>stores\<close> table, never the empty
  string, which the test \<open>!bestStore\<close> would take for \<open>null\<close>.
\<close>

theorem allocate_assigns_every_carried_item:
  assumes "[] \<notin> set storeIds"
    and "\<forall>r \<in> set items. \<exists>s \<in> set storeIds. supplies byMaster heap s r"
  shows "\<exists>storeToItems. allocate byMaster heap items storeIds = Inr (storeToItems, [])
     \<and> mset (concat (map snd storeToItems)) = mset items
     \<and> distinct (map fst storeToItems)
     \<and> set (map fst storeToItems) \<subseteq> set storeIds
     \<and> (\<forall>(s, l) \<in> set storeToItems. l \<noteq> [] \<and> (\<forall>r \<in> set l. supplies byMaster heap s r))"
proof -
  have "snd ([], {}) \<subseteq> all_positions items" "alias_closed items (snd ([], {}))"
    by (simp_all add: alias_closed_def)
  from alloc_loop_all_assigned [OF assms this] obtain sti where
    loop: "alloc_loop byMaster heap items storeIds ([], {}) = Inr (sti, all_positions items)"
    by auto
  then have alloc: "allocate byMaster heap items storeIds = Inr (sti, [])"
    by (simp add: allocate_def unassigned_items_none)
  have "alloc_inv byMaster heap items (fst ([], {})) (snd ([], {}))"
    by (simp add: alloc_inv_init)
  from alloc_loop_inv [OF this loop]
  have inv: "alloc_inv byMaster heap items sti (all_positions items)" by simp
  then have "mset (concat (map snd sti)) = mset (assigned_items items (all_positions items))"
    by (simp add: alloc_inv_def)
  with assigned_unassigned_items [of items "all_positions items"]
  have all: "mset (concat (map snd sti)) = mset items"
    by (simp add: unassigned_items_none)
  from inv have dist: "distinct (map fst sti)"
    by (simp add: alloc_inv_def)
  from inv have entries: "\<forall>(s, l) \<in> set sti. l \<noteq> [] \<and> (\<forall>r \<in> set l. supplies byMaster heap s r)"
    unfolding alloc_inv_def by fast
  from alloc_loop_keys [OF loop] have keys: "set (map fst sti) \<subseteq> set storeIds"
    by simp
  from alloc all dist keys entries show ?thesis by blast
qed

theorem allocate_assigns_every_carried_item_witness:
  "\<exists>storeToItems. allocate abc_byMaster abc_heap [2, 1, 1, 0] [''S1'', ''S2'']
      = Inr (storeToItems, [])
     \<and> mset (concat (map snd storeToItems)) = mset [2, 1, 1, 0]
     \<and> set (map fst storeToItems) \<subseteq> set [''S1'', ''S2'']"
proof -
  have ids: "[] \<notin> set [''S1'', ''S2'']" by simp
  have carried: "\<forall>r \<in> set [2, 1, 1, 0]. \<exists>s \<in> set [''S1'', ''S2'']. supplies abc_byMaster abc_heap s r"
    by code_simp
  from allocate_assigns_every_carried_item [OF ids carried] show ?thesis by blast
qed

text \<open>
  C4. Whatever the cart and the availability map, an allocation that is returned has
  one entry per store, no cart object in the lists of two different stores, every
  cart position in exactly one list or among the unassigned items, and in the list of
  a store only items whose master product id \<open>byMaster\<close> lists for that store.
\<close>

theorem allocate_one_store_per_item:
  assumes "allocate byMaster heap items storeIds = Inr (storeToItems, unassigned)"
  shows "distinct (map fst storeToItems)
    \<and> (\<forall>(s1, l1) \<in> set storeToItems. \<forall>(s2, l2) \<in> set storeToItems.
          s1 \<noteq> s2 \<longrightarrow> set l1 \<inter> set l2 = {})
    \<and> mset (concat (map snd storeToItems)) + mset unassigned = mset items
    \<and> (\<forall>(s, l) \<in> set storeToItems. \<forall>r \<in> set l.
          \<exists>m options. mid_of (heap r) = Some m \<and> m \<noteq> [] \<and> byMaster m = Some options
            \<and> s \<in> so_store_id ` set options)"
proof -
  from allocate_inv [OF assms] obtain A where
    inv: "alloc_inv byMaster heap items storeToItems A"
    and un: "unassigned = unassigned_items items A"
    by blast
  from inv have "mset (concat (map snd storeToItems)) = mset (assigned_items items A)"
    by (simp add: alloc_inv_def)
  with un have "mset (concat (map snd storeToItems)) + mset unassigned = mset items"
    by (simp only: assigned_unassigned_items)
  moreover from inv have "distinct (map fst storeToItems)"
    by (simp add: alloc_inv_def)
  moreover from inv
  have "\<forall>(s1, l1) \<in> set storeToItems. \<forall>(s2, l2) \<in> set storeToItems.
          s1 \<noteq> s2 \<longrightarrow> set l1 \<inter> set l2 = {}"
    by (simp add: alloc_inv_def)
  moreover from inv
  have "\<forall>(s, l) \<in> set storeToItems. \<forall>r \<in> set l. supplies byMaster heap s r"
    unfolding alloc_inv_def by fast
  then have "\<forall>(s, l) \<in> set storeToItems. \<forall>r \<in> set l.
          \<exists>m options. mid_of (heap r) = Some m \<and> m \<noteq> [] \<and> byMaster m = Some options
            \<and> s \<in> so_store_id ` set options"
    by (simp only: supplies_iff)
  ultimately show ?thesis by blast
qed

theorem allocate_one_store_per_item_witness:
  "distinct (map fst [(''S1'', [1, 1, 0 :: ref]), (''S2'', [2])])
   \<and> mset (concat (map snd [(''S1'', [1, 1, 0 :: ref]), (''S2'', [2])])) + mset [] = mset [2, 1, 1, 0]"
proof -
  have "allocate abc_byMaster abc_heap [2, 1, 1, 0] [''S1'', ''S2'']
      = Inr ([(''S1'', [1, 1, 0]), (''S2'', [2])], [])"
    by code_simp
  from allocate_one_store_per_item [OF this] show ?thesis by blast
qed

section \<open>Failures of \<open>createOrder\<close>\<close>

text \<open>
  C1. A failed datastore write during the persistence steps should roll back every row
  already written. \<open>createOrder\<close> issues no delete at all: when the first
  \<open>store_orders\<close> insert fails, the \<open>customer_orders\<close> row stays with no sub-order;
  when the \<open>order_items\<close> insert of the second sub-order fails, the order stays with
  both sub-orders and the first one's items only.
\<close>

theorem createOrder_leaves_rows_on_failure:
  "createOrder (abc_env (fault_at (InsertStoreOrder 0))) abc_heap (abc_order [0, 1, 2] 65 30)
       empty_db
     = (Inl (PersistenceError ''connection lost''),
        empty_db\<lparr>customer_orders :=
                   [\<lparr>co_id = 0, co_customer_id = ''u1'', co_order_code = ''NN20250601-0001'',
                     co_status = ''pending_at_store'', co_payment_status = ''pending'',
                     co_payment_method = ''cash_on_delivery'', co_subtotal_amount = 65,
                     co_delivery_fee = 30, co_discount_amount = 0, co_total_amount = 95,
                     co_delivery_address = ''1 Main Rd, Kolkata, WB, 700084'',
                     co_delivery_latitude = 22, co_delivery_longitude = 88, co_notes = None,
                     co_placed_at = None, co_created_at = None\<rparr>],
                 next_id := 1\<rparr>)
   \<and> (let (result, d) = createOrder (abc_env (fault_at (InsertOrderItems 1))) abc_heap
                            (abc_order [0, 1, 2] 65 30) empty_db
      in result = Inl (PersistenceError ''connection lost'')
       \<and> map co_id (customer_orders d) = [0]
       \<and> map sto_store_id (store_orders d) = [''S1'', ''S2'']
       \<and> map oit_product_id (order_items d) = [''p1'', ''p2''])"
  by code_simp

lemma count_items_TypeError:
  "\<exists>it \<in> set its. options_for byMaster (mid_of (heap it)) = None \<Longrightarrow>
     count_items byMaster heap items {} s its c = Inl TypeError"
  by (induction its arbitrary: c) (auto split: option.splits)

lemma alloc_loop_TypeError:
  assumes "storeIds \<noteq> []" and "it \<in> set items"
    and "options_for byMaster (mid_of (heap it)) = None"
  shows "alloc_loop byMaster heap items storeIds ([], {}) = Inl TypeError"
proof -
  from assms(1) obtain s rest where ids: "storeIds = s # rest" by (cases storeIds) auto
  from assms(2) have "0 < length items" by (cases items) auto
  moreover have "count_items byMaster heap items {} s items 0 = Inl TypeError"
    using assms(2,3) by (intro count_items_TypeError) blast
  ultimately show ?thesis
    by (simp add: alloc_loop.simps ids)
qed

lemma build_byMaster_None:
  "(build_byMaster rows bm m = None) = (bm m = None \<and> m \<notin> pr_master_product_id ` set rows)"
  by (induction rows arbitrary: bm) auto

lemma set_valid_ids: "set (valid_ids xs) = {m. Some m \<in> set xs \<and> m \<noteq> []}"
  by (induction xs rule: valid_ids.induct) auto

lemma set_foldl_set_add: "set (foldl set_add acc xs) = set acc \<union> set xs"
  by (induction xs arbitrary: acc) (auto simp: set_add_def)

lemma set_new_Set: "set (new_Set xs) = set xs"
  by (simp add: new_Set_def set_foldl_set_add)

lemma availability_rows_filtered:
  "row \<in> set (availability_rows e storeIds mids) \<Longrightarrow>
     row \<in> set (products_at e SelectAvailability) \<and> pr_is_active row
       \<and> pr_store_id row \<in> set storeIds \<and> pr_master_product_id row \<in> set mids"
  by (auto simp: availability_rows_def availability_queries_def run_query_def split: option.splits)

text \<open>
  C2. A cart with an item no candidate store carries should fail with the
  items-unavailable error naming the item. When the item has a master product id and
  no active inventory row at a candidate store has it, the id is not a key of
  \<open>byMaster\<close>, so \<open>options\<close> is \<open>undefined\<close> and \<open>options.some\<close> raises a
  \<open>TypeError\<close> in the first round of the loop: that is the error of \<open>createOrder\<close>,
  whatever else the cart holds. No row is written.
\<close>

theorem createOrder_uncarried_item_TypeError:
  assumes "d_user_id orderData = Some user_id" and "user_id \<noteq> []"
    and "resolve_coordinates e (d_shipping_address orderData) = Some geocoded"
    and "generateOrderNumber e = Inr orderCode"
    and "getNearbyStoreIds e (fst geocoded) (snd geocoded) 50 = storeIds" and "storeIds \<noteq> []"
    and "it \<in> set (d_items orderData)" and "mid_of (heap it) = Some m" and "m \<noteq> []"
    and "\<forall>row \<in> set (products_at e SelectAvailability).
           pr_is_active row \<and> pr_store_id row \<in> set storeIds \<longrightarrow> pr_master_product_id row \<noteq> m"
  shows "createOrder e heap orderData d = (Inl TypeError, d)"
proof -
  let ?items = "d_items orderData"
  let ?mids = "new_Set (valid_ids (map (\<lambda>it. mid_of (heap it)) ?items))"
  let ?byMaster = "build_byMaster (availability_rows e storeIds ?mids) Map.empty"
  from assms(7,8,9) have "m \<in> set ?mids"
    by (force simp: set_new_Set set_valid_ids)
  then have mids: "?mids \<noteq> []" by auto
  have "m \<notin> pr_master_product_id ` set (availability_rows e storeIds ?mids)"
    using assms(10) availability_rows_filtered by blast
  then have "?byMaster m = None"
    by (simp add: build_byMaster_None)
  with assms(8,9) have "options_for ?byMaster (mid_of (heap it)) = None"
    by (simp add: options_for_def)
  from alloc_loop_TypeError [of storeIds it ?items ?byMaster heap, OF assms(6,7) this]
  have "allocate ?byMaster heap ?items storeIds = Inl TypeError"
    by (simp add: allocate_def)
  with assms(1-6) mids show ?thesis
    by (simp add: createOrder_def Let_def)
qed

theorem createOrder_uncarried_item_TypeError_witness:
  "createOrder (abc_env no_faults) abc_heap (abc_order [0, 3] 11 30) empty_db
     = (Inl TypeError, empty_db)"
proof -
  have ids: "getNearbyStoreIds (abc_env no_faults) (fst (22, 88)) (snd (22, 88)) 50 = [''S1'', ''S2'']"
    by (simp add: getNearbyStoreIds_def abc_env_def)
  have none: "\<forall>row \<in> set (products_at (abc_env no_faults) SelectAvailability).
           pr_is_active row \<and> pr_store_id row \<in> set [''S1'', ''S2'']
             \<longrightarrow> pr_master_product_id row \<noteq> ''D''"
    by (simp add: abc_env_def abc_inventory_def inventory_row_def)
  show ?thesis
    by (rule createOrder_uncarried_item_TypeError
          [where user_id = "''u1''" and geocoded = "(22, 88)" and orderCode = "''NN20250601-0001''"
             and storeIds = "[''S1'', ''S2'']" and it = 3 and m = "''D''", OF _ _ _ _ ids _ _ _ _ none])
       (simp_all add: abc_order_def resolve_coordinates_def generateOrderNumber_def abc_env_def
          abc_heap_def cart_line_def mid_of_def or_else_def truthy_def)
qed

text \<open>
  C8. \<open>getNearbyStoreIds\<close> always returns a list: the empty one when the remote
  procedure throws, returns an error, returns no data or returns no store. When
  \<open>createOrder\<close> gets the empty list from it (the user id, the coordinates and the
  order code being in hand by then), it fails with the no-stores error and the
  datastore is as before.
\<close>

theorem getNearbyStoreIds_empty_and_no_stores:
  "(get_nearby_store_ids e lat lng radiusKm = RpcThrows
      \<longrightarrow> getNearbyStoreIds e lat lng radiusKm = [])
   \<and> (get_nearby_store_ids e lat lng radiusKm = RpcReturns storeIds (Some msg)
      \<longrightarrow> getNearbyStoreIds e lat lng radiusKm = [])
   \<and> (get_nearby_store_ids e lat lng radiusKm = RpcReturns None err
      \<longrightarrow> getNearbyStoreIds e lat lng radiusKm = [])
   \<and> (get_nearby_store_ids e lat lng radiusKm = RpcReturns (Some []) err
      \<longrightarrow> getNearbyStoreIds e lat lng radiusKm = [])
   \<and> (get_nearby_store_ids e lat lng radiusKm = RpcReturns (Some ids) None
      \<longrightarrow> getNearbyStoreIds e lat lng radiusKm = ids)
   \<and> (d_user_id orderData = Some user_id \<and> user_id \<noteq> []
      \<and> resolve_coordinates e (d_shipping_address orderData) = Some geocoded
      \<and> generateOrderNumber e = Inr orderCode
      \<and> getNearbyStoreIds e (fst geocoded) (snd geocoded) 50 = []
      \<longrightarrow> createOrder e heap orderData d = (Inl NoStoresAvailableError, d))"
proof -
  have locator: "getNearbyStoreIds e lat lng radiusKm =
      (case get_nearby_store_ids e lat lng radiusKm of
         RpcThrows \<Rightarrow> []
       | RpcReturns data err \<Rightarrow>
           (case err of Some m \<Rightarrow> [] | None \<Rightarrow> (case data of None \<Rightarrow> [] | Some l \<Rightarrow> l)))"
    by (simp add: getNearbyStoreIds_def)
  have "d_user_id orderData = Some user_id \<and> user_id \<noteq> []
      \<and> resolve_coordinates e (d_shipping_address orderData) = Some geocoded
      \<and> generateOrderNumber e = Inr orderCode
      \<and> getNearbyStoreIds e (fst geocoded) (snd geocoded) 50 = []
      \<longrightarrow> createOrder e heap orderData d = (Inl NoStoresAvailableError, d)"
    by (simp add: createOrder_def)
  with locator show ?thesis
    by (simp split: option.splits)
qed

theorem getNearbyStoreIds_empty_and_no_stores_witness:
  "getNearbyStoreIds (locator_env RpcThrows) 22 88 50 = []
   \<and> getNearbyStoreIds (locator_env (RpcReturns (Some [''S1'']) (Some ''timeout''))) 22 88 50 = []
   \<and> getNearbyStoreIds (locator_env (RpcReturns None None)) 22 88 50 = []
   \<and> getNearbyStoreIds (locator_env (RpcReturns (Some []) None)) 22 88 50 = []
   \<and> getNearbyStoreIds (locator_env (RpcReturns (Some [''S1'']) None)) 22 88 50 = [''S1'']
   \<and> createOrder (locator_env RpcThrows) abc_heap (abc_order [0, 1, 2] 65 30) empty_db
        = (Inl NoStoresAvailableError, empty_db)"
proof -
  have throws: "get_nearby_store_ids (locator_env RpcThrows) 22 88 50 = RpcThrows"
    by (simp add: locator_env_def)
  have pre: "d_user_id (abc_order [0, 1, 2] 65 30) = Some ''u1'' \<and> ''u1'' \<noteq> []
      \<and> resolve_coordinates (locator_env RpcThrows)
            (d_shipping_address (abc_order [0, 1, 2] 65 30)) = Some (22, 88)
      \<and> generateOrderNumber (locator_env RpcThrows) = Inr ''NN20250601-0001''"
    by (simp add: abc_order_def resolve_coordinates_def generateOrderNumber_def
        locator_env_def abc_env_def)
  have a: "getNearbyStoreIds (locator_env RpcThrows) 22 88 50 = []"
    using getNearbyStoreIds_empty_and_no_stores
      [of "locator_env RpcThrows" 22 88 50] throws
    by simp
  have b: "getNearbyStoreIds (locator_env (RpcReturns (Some [''S1'']) (Some ''timeout''))) 22 88 50 = []"
    using getNearbyStoreIds_empty_and_no_stores
      [of "locator_env (RpcReturns (Some [''S1'']) (Some ''timeout''))" 22 88 50
          "Some [''S1'']" "''timeout''"]
    by (simp add: locator_env_def)
  have c: "getNearbyStoreIds (locator_env (RpcReturns None None)) 22 88 50 = []"
    using getNearbyStoreIds_empty_and_no_stores
      [of "locator_env (RpcReturns None None)" 22 88 50 _ _ None]
    by (simp add: locator_env_def)
  have d: "getNearbyStoreIds (locator_env (RpcReturns (Some []) None)) 22 88 50 = []"
    using getNearbyStoreIds_empty_and_no_stores
      [of "locator_env (RpcReturns (Some []) None)" 22 88 50 _ _ None]
    by (simp add: locator_env_def)
  have e: "getNearbyStoreIds (locator_env (RpcReturns (Some [''S1'']) None)) 22 88 50 = [''S1'']"
    using getNearbyStoreIds_empty_and_no_stores
      [of "locator_env (RpcReturns (Some [''S1'']) None)" 22 88 50 _ _ _ "[''S1'']"]
    by (simp add: locator_env_def)
  have f: "createOrder (locator_env RpcThrows) abc_heap (abc_order [0, 1, 2] 65 30) empty_db
        = (Inl NoStoresAvailableError, empty_db)"
    using getNearbyStoreIds_empty_and_no_stores
      [of "locator_env RpcThrows" 22 88 50 _ _ _ _ "abc_order [0, 1, 2] 65 30" "''u1''"
          "(22, 88)" "''NN20250601-0001''" abc_heap empty_db] pre a
    by simp
  from a b c d e f show ?thesis by simp
qed

section \<open>Successful orders\<close>

lemma foldl_plus: "foldl (\<lambda>sum it. sum + f it) a l = a + sum_list (map f l)"
  for a :: real
  by (induction l arbitrary: a) simp_all

lemma chunkSubtotal_exact:
  "number_add e = (+) \<Longrightarrow> number_mul e = (*) \<Longrightarrow> chunkSubtotal e heap l = cart_total heap l"
  by (simp add: chunkSubtotal_def cart_total_def foldl_plus)

lemma cart_total_concat:
  "sum_list (map (\<lambda>(s, l). cart_total heap l) sti) = cart_total heap (concat (map snd sti))"
  by (induction sti) (auto simp: cart_total_def)

lemma cart_total_mset: "mset xs = mset ys \<Longrightarrow> cart_total heap xs = cart_total heap ys"
proof -
  assume eq: "mset xs = mset ys"
  have "cart_total heap zs
      = sum_mset (image_mset (\<lambda>it. oi_price (heap it) * oi_quantity (heap it)) (mset zs))" for zs
    unfolding cart_total_def by (simp only: sum_mset_sum_list [symmetric] mset_map)
  with eq show ?thesis by simp
qed

lemma foldl_lines:
  "foldl (\<lambda>sum (p, q). g sum p q) a (map (\<lambda>it. (f1 it, f2 it)) l)
     = foldl (\<lambda>sum it. g sum (f1 it) (f2 it)) a l"
  by (induction l arbitrary: a) simp_all

lemma chunkSubtotal_lines:
  "chunkSubtotal e heap l
     = lineSubtotal e (map (\<lambda>it. (oi_price (heap it), oi_quantity (heap it))) l)"
  unfolding chunkSubtotal_def lineSubtotal_def
  by (simp only: foldl_lines [where g = "\<lambda>sum p q. number_add e sum (number_mul e p q)"])

lemma orderItemsPayload_rows:
  "orderItemsPayload heap m sid l = Inr payload \<Longrightarrow>
     map oit_store_order_id payload = map (\<lambda>it. sid) l
     \<and> map (\<lambda>i. (oit_unit_price i, oit_quantity i)) payload
         = map (\<lambda>it. (oi_price (heap it), oi_quantity (heap it))) l"
proof (induction l arbitrary: payload)
  case Nil
  then show ?case by simp
next
  case (Cons it rest)
  from Cons.prems obtain pid rows where
    rows: "orderItemsPayload heap m sid rest = Inr rows"
    and payload: "payload = \<lparr>oit_store_order_id = sid, oit_product_id = pid,
        oit_product_name = oi_name (heap it), oit_unit = or_else (oi_unit (heap it)) None,
        oit_image_url = or_else (oi_image (heap it)) None,
        oit_unit_price = oi_price (heap it), oit_quantity = oi_quantity (heap it)\<rparr> # rows"
    by (auto simp: Let_def split: option.splits if_splits sum.splits)
  from Cons.IH [OF rows] payload show ?case by simp
qed

lemma supplies_truthy: "supplies byMaster heap s r \<Longrightarrow> truthy (mid_of (heap r))"
  by (auto simp: supplies_iff truthy_def)

lemma valid_ids_nonempty:
  assumes "l \<noteq> []" and "\<forall>r \<in> set l. truthy (mid_of (heap r))"
  shows "valid_ids (map (\<lambda>it. mid_of (heap it)) l) \<noteq> []"
proof -
  from assms(1) obtain r rest where l: "l = r # rest" by (cases l) auto
  with assms(2) obtain m where "mid_of (heap r) = Some m" "m \<noteq> []"
    by (auto simp: truthy_def split: option.splits)
  with l show ?thesis by simp
qed

lemma suborders_of_Cons:
  "suborders_of e heap fee n coid ((s, l) # rest) (row # rows) (page # pages)
     = (sto_store_id row = s \<and> sto_subtotal_amount row = chunkSubtotal e heap l
        \<and> sto_delivery_fee row = chunkDeliveryFee fee n \<and> sto_customer_order_id row = coid
        \<and> map oit_store_order_id page = map (\<lambda>it. sto_id row) l
        \<and> map (\<lambda>i. (oit_unit_price i, oit_quantity i)) page
            = map (\<lambda>it. (oi_price (heap it), oi_quantity (heap it))) l
        \<and> suborders_of e heap fee n coid rest rows pages)"
  unfolding suborders_of_def by auto

lemma store_orders_loop_rows:
  "\<forall>(s, l) \<in> set rest. s \<noteq> [] \<and> l \<noteq> [] \<and> (\<forall>r \<in> set l. truthy (mid_of (heap r))) \<Longrightarrow>
   store_orders_loop e heap fee coid n i rest d = (None, d') \<Longrightarrow>
   \<exists>rows pages. store_orders d' = store_orders d @ rows
     \<and> order_items d' = order_items d @ concat pages
     \<and> customer_orders d' = customer_orders d
     \<and> map sto_id rows = [next_id d..<next_id d + length rest]
     \<and> suborders_of e heap fee n coid rest rows pages"
proof (induction rest arbitrary: i d)
  case Nil
  then show ?case by (simp add: suborders_of_def)
next
  case (Cons a rest)
  obtain s l where a: "a = (s, l)" by (cases a)
  from Cons.prems(1) a have ne: "s \<noteq> []" "l \<noteq> []"
    and mids: "\<forall>r \<in> set l. truthy (mid_of (heap r))"
    and rest_ne: "\<forall>(s, l) \<in> set rest. s \<noteq> [] \<and> l \<noteq> [] \<and> (\<forall>r \<in> set l. truthy (mid_of (heap r)))"
    by simp_all
  from valid_ids_nonempty [OF ne(2) mids]
  have ids: "valid_ids (map (\<lambda>it. mid_of (heap it)) l) \<noteq> []" .
  define row where "row = \<lparr>sto_id = next_id d, sto_customer_order_id = coid, sto_store_id = s,
      sto_subtotal_amount = chunkSubtotal e heap l, sto_delivery_fee = chunkDeliveryFee fee n,
      sto_status = ''pending_at_store''\<rparr>"
  let ?d1 = "d\<lparr>store_orders := store_orders d @ [row], next_id := next_id d + 1\<rparr>"
  from Cons.prems(2) a ne have ins: "fault e (InsertStoreOrder i) = None"
    by (auto split: option.splits)
  from Cons.prems(2) a ne ins ids obtain page where
    page: "orderItemsPayload heap
             (build_masterToProduct
                (run_query (products_at e (SelectProducts i))
                   \<lparr>q_store_ids = [s],
                    q_master_ids = Some (valid_ids (map (\<lambda>it. mid_of (heap it)) l))\<rparr>)
                Map.empty)
             (next_id d) l = Inr page"
    and loop: "store_orders_loop e heap fee coid n (i + 1) rest
                 (?d1\<lparr>order_items := order_items ?d1 @ page\<rparr>) = (None, d')"
    by (auto simp: Let_def row_def split: option.splits sum.splits)
  let ?dm = "?d1\<lparr>order_items := order_items ?d1 @ page\<rparr>"
  from orderItemsPayload_rows [OF page]
  have lines: "map oit_store_order_id page = map (\<lambda>it. next_id d) l"
    "map (\<lambda>i. (oit_unit_price i, oit_quantity i)) page
       = map (\<lambda>it. (oi_price (heap it), oi_quantity (heap it))) l"
    by simp_all
  from Cons.IH [OF rest_ne loop] obtain rows pages where
    all: "store_orders d' = store_orders ?dm @ rows
     \<and> order_items d' = order_items ?dm @ concat pages
     \<and> customer_orders d' = customer_orders ?dm
     \<and> map sto_id rows = [next_id ?dm..<next_id ?dm + length rest]
     \<and> suborders_of e heap fee n coid rest rows pages"
    by (elim exE)
  then have r: "store_orders d' = store_orders ?dm @ rows"
    "order_items d' = order_items ?dm @ concat pages"
    "customer_orders d' = customer_orders ?dm"
    "map sto_id rows = [next_id ?dm..<next_id ?dm + length rest]"
    "suborders_of e heap fee n coid rest rows pages"
    by simp_all
  have 1: "store_orders d' = store_orders d @ (row # rows)"
    using r(1) by simp
  have 2: "order_items d' = order_items d @ concat (page # pages)"
    using r(2) by simp
  have 3: "customer_orders d' = customer_orders d"
    using r(3) by simp
  have "[next_id d..<next_id d + length (a # rest)]
      = next_id d # [Suc (next_id d)..<Suc (next_id d) + length rest]"
    by (subst upt_rec) simp
  with r(4) have 4: "map sto_id (row # rows) = [next_id d..<next_id d + length (a # rest)]"
    by (simp add: row_def)
  have 5: "suborders_of e heap fee n coid (a # rest) (row # rows) (page # pages)"
    unfolding a suborders_of_Cons using r(5) lines by (simp add: row_def)
  from 1 2 3 4 5 show ?case by blast
qed

lemma persist_order_rows:
  assumes ok: "persist_order e heap orderData user_id orderCode fullAddress geocoded sti d
                 = (Inr order, d')"
    and ne: "\<forall>(s, l) \<in> set sti. s \<noteq> [] \<and> l \<noteq> [] \<and> (\<forall>r \<in> set l. truthy (mid_of (heap r)))"
  shows "\<exists>co rows pages. customer_orders d' = customer_orders d @ [co]
     \<and> co_id co = o_id order
     \<and> co_subtotal_amount co = d_subtotal orderData
     \<and> store_orders d' = store_orders d @ rows
     \<and> order_items d' = order_items d @ concat pages
     \<and> distinct (map sto_id rows)
     \<and> suborders_of e heap (d_delivery_fee orderData) (length sti) (o_id order) sti rows pages"
proof -
  define co where "co = \<lparr>co_id = next_id d, co_customer_id = user_id, co_order_code = orderCode,
      co_status = ''pending_at_store'', co_payment_status = d_payment_status orderData,
      co_payment_method = paymentMethodEnum (d_payment_method orderData),
      co_subtotal_amount = d_subtotal orderData, co_delivery_fee = d_delivery_fee orderData,
      co_discount_amount = 0, co_total_amount = d_order_total orderData,
      co_delivery_address = fullAddress, co_delivery_latitude = fst geocoded,
      co_delivery_longitude = snd geocoded, co_notes = None,
      co_placed_at = default_placed_at e, co_created_at = default_created_at e\<rparr>"
  define d1 where "d1 = d\<lparr>customer_orders := customer_orders d @ [co], next_id := next_id d + 1\<rparr>"
  from ok obtain d2 where
    loop: "store_orders_loop e heap (d_delivery_fee orderData) (next_id d) (length sti) 0 sti d1
             = (None, d2)"
    and d': "d' = insert_status_history e (next_id d) d2"
    and oid: "o_id order = next_id d"
    unfolding co_def d1_def
    by (auto simp: persist_order_def Let_def split: option.splits prod.splits)
  from store_orders_loop_rows [OF ne loop] obtain rows pages where
    all: "store_orders d2 = store_orders d1 @ rows
     \<and> order_items d2 = order_items d1 @ concat pages
     \<and> customer_orders d2 = customer_orders d1
     \<and> map sto_id rows = [next_id d1..<next_id d1 + length sti]
     \<and> suborders_of e heap (d_delivery_fee orderData) (length sti) (next_id d) sti rows pages"
    by (elim exE)
  then have rows: "store_orders d2 = store_orders d1 @ rows"
    "order_items d2 = order_items d1 @ concat pages"
    "customer_orders d2 = customer_orders d1"
    "map sto_id rows = [next_id d1..<next_id d1 + length sti]"
    "suborders_of e heap (d_delivery_fee orderData) (length sti) (next_id d) sti rows pages"
    by simp_all
  have hist: "customer_orders d' = customer_orders d2" "store_orders d' = store_orders d2"
    "order_items d' = order_items d2"
    unfolding d' by (simp_all add: insert_status_history_def split: option.splits)
  have 1: "customer_orders d' = customer_orders d @ [co]"
    using hist(1) rows(3) by (simp add: d1_def)
  have 2: "store_orders d' = store_orders d @ rows"
    using hist(2) rows(1) by (simp add: d1_def)
  have 3: "order_items d' = order_items d @ concat pages"
    using hist(3) rows(2) by (simp add: d1_def)
  have 4: "co_id co = o_id order" "co_subtotal_amount co = d_subtotal orderData"
    using oid by (simp_all add: co_def)
  have "distinct [next_id d1..<next_id d1 + length sti]" by simp
  with rows(4) have 5: "distinct (map sto_id rows)" by simp
  from rows(5) oid
  have 6: "suborders_of e heap (d_delivery_fee orderData) (length sti) (o_id order) sti rows pages"
    by simp
  from 1 2 3 4 5 6 show ?thesis by blast
qed

lemma createOrder_success:
  assumes "createOrder e heap orderData d = (Inr order, d')"
  shows "\<exists>geocoded user_id orderCode sti.
      resolve_coordinates e (d_shipping_address orderData) = Some geocoded
      \<and> d_items orderData \<noteq> []
      \<and> allocate
           (build_byMaster
              (availability_rows e (getNearbyStoreIds e (fst geocoded) (snd geocoded) 50)
                 (new_Set (valid_ids (map (\<lambda>it. mid_of (heap it)) (d_items orderData)))))
              Map.empty)
           heap (d_items orderData) (getNearbyStoreIds e (fst geocoded) (snd geocoded) 50)
          = Inr (sti, [])
      \<and> persist_order e heap orderData user_id orderCode
           (fullAddress_of (d_shipping_address orderData)) geocoded sti d = (Inr order, d')"
proof -
  let ?items = "d_items orderData"
  let ?mids = "new_Set (valid_ids (map (\<lambda>it. mid_of (heap it)) ?items))"
  from assms obtain uid where uid: "d_user_id orderData = Some uid" "uid \<noteq> []"
    by (auto simp: createOrder_def split: option.splits if_splits)
  with assms obtain g where g: "resolve_coordinates e (d_shipping_address orderData) = Some g"
    by (auto simp: createOrder_def split: option.splits)
  with assms uid obtain code where code: "generateOrderNumber e = Inr code"
    by (auto simp: createOrder_def split: sum.splits)
  let ?ids = "getNearbyStoreIds e (fst g) (snd g) 50"
  let ?byMaster = "build_byMaster (availability_rows e ?ids ?mids) Map.empty"
  from assms uid g code have ids: "?ids \<noteq> []"
    by (auto simp: createOrder_def Let_def split: if_splits)
  with assms uid g code have mids: "?mids \<noteq> []"
    by (auto simp: createOrder_def Let_def split: if_splits)
  then have items: "?items \<noteq> []"
    by (auto simp: new_Set_def)
  from assms uid g code ids mids obtain sti un where
    alloc: "allocate ?byMaster heap ?items ?ids = Inr (sti, un)"
    by (auto simp: createOrder_def Let_def split: sum.splits)
  with assms uid g code ids mids have un: "un = []"
    by (auto simp: createOrder_def Let_def split: if_splits)
  with assms uid g code ids mids alloc
  have "persist_order e heap orderData uid code
           (fullAddress_of (d_shipping_address orderData)) g sti d = (Inr order, d')"
    by (simp add: createOrder_def Let_def)
  with g items alloc un show ?thesis by blast
qed

lemma createOrder_rows:
  assumes "createOrder e heap orderData d = (Inr order, d')"
  shows "\<exists>geocoded sti co rows pages.
       resolve_coordinates e (d_shipping_address orderData) = Some geocoded
     \<and> allocate
          (build_byMaster
             (availability_rows e (getNearbyStoreIds e (fst geocoded) (snd geocoded) 50)
                (new_Set (valid_ids (map (\<lambda>it. mid_of (heap it)) (d_items orderData)))))
             Map.empty)
          heap (d_items orderData) (getNearbyStoreIds e (fst geocoded) (snd geocoded) 50)
         = Inr (sti, [])
     \<and> sti \<noteq> []
     \<and> mset (concat (map snd sti)) = mset (d_items orderData)
     \<and> customer_orders d' = customer_orders d @ [co]
     \<and> co_id co = o_id order
     \<and> co_subtotal_amount co = d_subtotal orderData
     \<and> store_orders d' = store_orders d @ rows
     \<and> order_items d' = order_items d @ concat pages
     \<and> distinct (map sto_id rows)
     \<and> suborders_of e heap (d_delivery_fee orderData) (length sti) (o_id order) sti rows pages"
proof -
  from createOrder_success [OF assms] obtain geocoded user_id orderCode sti
    where g: "resolve_coordinates e (d_shipping_address orderData) = Some geocoded"
      and items: "d_items orderData \<noteq> []"
      and alloc: "allocate
           (build_byMaster
              (availability_rows e (getNearbyStoreIds e (fst geocoded) (snd geocoded) 50)
                 (new_Set (valid_ids (map (\<lambda>it. mid_of (heap it)) (d_items orderData)))))
              Map.empty)
           heap (d_items orderData) (getNearbyStoreIds e (fst geocoded) (snd geocoded) 50)
          = Inr (sti, [])"
      and persist: "persist_order e heap orderData user_id orderCode
           (fullAddress_of (d_shipping_address orderData)) geocoded sti d = (Inr order, d')"
    by blast
  from allocate_inv [OF alloc] obtain A where
    inv: "alloc_inv
            (build_byMaster
              (availability_rows e (getNearbyStoreIds e (fst geocoded) (snd geocoded) 50)
                 (new_Set (valid_ids (map (\<lambda>it. mid_of (heap it)) (d_items orderData)))))
              Map.empty)
            heap (d_items orderData) sti A"
    and un: "unassigned_items (d_items orderData) A = []"
    by auto
  from inv have ms: "mset (concat (map snd sti)) = mset (assigned_items (d_items orderData) A)"
    and entries: "\<forall>(s, l) \<in> set sti. s \<noteq> [] \<and> l \<noteq> [] \<and>
        (\<forall>r \<in> set l. supplies
            (build_byMaster
              (availability_rows e (getNearbyStoreIds e (fst geocoded) (snd geocoded) 50)
                 (new_Set (valid_ids (map (\<lambda>it. mid_of (heap it)) (d_items orderData)))))
              Map.empty) heap s r)"
    by (simp_all add: alloc_inv_def)
  from assigned_unassigned_items [of "d_items orderData" A] un ms
  have all: "mset (concat (map snd sti)) = mset (d_items orderData)" by simp
  with items have ne: "sti \<noteq> []" by auto
  from entries
  have "\<forall>(s, l) \<in> set sti. s \<noteq> [] \<and> l \<noteq> [] \<and> (\<forall>r \<in> set l. truthy (mid_of (heap r)))"
    using supplies_truthy by fast
  from persist_order_rows [OF persist this] obtain co rows pages where
    rows: "customer_orders d' = customer_orders d @ [co]
     \<and> co_id co = o_id order
     \<and> co_subtotal_amount co = d_subtotal orderData
     \<and> store_orders d' = store_orders d @ rows
     \<and> order_items d' = order_items d @ concat pages
     \<and> distinct (map sto_id rows)
     \<and> suborders_of e heap (d_delivery_fee orderData) (length sti) (o_id order) sti rows pages"
    by (elim exE)
  with g alloc ne all show ?thesis by blast
qed

lemma success_collapse: "\<not> isl (fst r) \<Longrightarrow> r = (Inr (projr (fst r)), snd r)"
  by (cases r, cases "fst r") auto

text \<open>
  C6. After a successful \<open>createOrder\<close> there is one new sub-order per store of the
  allocation, in the new customer order. Each has as subtotal the sum of price times
  quantity over the items assigned to its store, computed as the code's reduce; these
  items are the \<open>order_items\<close> rows written for that sub-order, and the lists of all
  stores together hold exactly the cart. The \<open>customer_orders\<close> row records the
  subtotal of the request, \<open>orderData.subtotal\<close>, which is neither computed nor
  checked. So, when the arithmetic is exact, the subtotals of the sub-orders add up to
  the sum over the cart, and to the recorded subtotal exactly when the caller sent
  that sum.
\<close>

theorem createOrder_suborder_subtotals:
  assumes "createOrder e heap orderData d = (Inr order, d')"
  shows "\<exists>geocoded storeToItems co rows pages.
       resolve_coordinates e (d_shipping_address orderData) = Some geocoded
     \<and> allocate
          (build_byMaster
             (availability_rows e (getNearbyStoreIds e (fst geocoded) (snd geocoded) 50)
                (new_Set (valid_ids (map (\<lambda>it. mid_of (heap it)) (d_items orderData)))))
             Map.empty)
          heap (d_items orderData) (getNearbyStoreIds e (fst geocoded) (snd geocoded) 50)
         = Inr (storeToItems, [])
     \<and> mset (concat (map snd storeToItems)) = mset (d_items orderData)
     \<and> customer_orders d' = customer_orders d @ [co]
     \<and> co_id co = o_id order
     \<and> co_subtotal_amount co = d_subtotal orderData
     \<and> store_orders d' = store_orders d @ rows
     \<and> distinct (map sto_id rows)
     \<and> map sto_customer_order_id rows = replicate (length rows) (co_id co)
     \<and> map sto_store_id rows = map fst storeToItems
     \<and> map sto_subtotal_amount rows = map (\<lambda>(s, l). chunkSubtotal e heap l) storeToItems
     \<and> order_items d' = order_items d @ concat pages
     \<and> map (map oit_store_order_id) pages
         = map (\<lambda>(row, (s, l)). map (\<lambda>it. sto_id row) l) (zip rows storeToItems)
     \<and> map (map (\<lambda>i. (oit_unit_price i, oit_quantity i))) pages
         = map (\<lambda>(s, l). map (\<lambda>it. (oi_price (heap it), oi_quantity (heap it))) l) storeToItems
     \<and> map sto_subtotal_amount rows
         = map (\<lambda>page. lineSubtotal e (map (\<lambda>i. (oit_unit_price i, oit_quantity i)) page)) pages
     \<and> (number_add e = (+) \<and> number_mul e = (*) \<longrightarrow>
          sum_list (map sto_subtotal_amount rows) = cart_total heap (d_items orderData)
          \<and> (sum_list (map sto_subtotal_amount rows) = co_subtotal_amount co)
              = (d_subtotal orderData = cart_total heap (d_items orderData)))"
proof -
  from createOrder_rows [OF assms] obtain geocoded sti co rows pages where
    all: "resolve_coordinates e (d_shipping_address orderData) = Some geocoded
     \<and> allocate
          (build_byMaster
             (availability_rows e (getNearbyStoreIds e (fst geocoded) (snd geocoded) 50)
                (new_Set (valid_ids (map (\<lambda>it. mid_of (heap it)) (d_items orderData)))))
             Map.empty)
          heap (d_items orderData) (getNearbyStoreIds e (fst geocoded) (snd geocoded) 50)
         = Inr (sti, [])
     \<and> sti \<noteq> []
     \<and> mset (concat (map snd sti)) = mset (d_items orderData)
     \<and> customer_orders d' = customer_orders d @ [co]
     \<and> co_id co = o_id order
     \<and> co_subtotal_amount co = d_subtotal orderData
     \<and> store_orders d' = store_orders d @ rows
     \<and> order_items d' = order_items d @ concat pages
     \<and> distinct (map sto_id rows)
     \<and> suborders_of e heap (d_delivery_fee orderData) (length sti) (o_id order) sti rows pages"
    by (elim exE)
  then have g: "resolve_coordinates e (d_shipping_address orderData) = Some geocoded"
    and alloc: "allocate
          (build_byMaster
             (availability_rows e (getNearbyStoreIds e (fst geocoded) (snd geocoded) 50)
                (new_Set (valid_ids (map (\<lambda>it. mid_of (heap it)) (d_items orderData)))))
             Map.empty)
          heap (d_items orderData) (getNearbyStoreIds e (fst geocoded) (snd geocoded) 50)
         = Inr (sti, [])"
    and ms: "mset (concat (map snd sti)) = mset (d_items orderData)"
    and co: "customer_orders d' = customer_orders d @ [co]" "co_id co = o_id order"
      "co_subtotal_amount co = d_subtotal orderData"
    and tables: "store_orders d' = store_orders d @ rows"
      "order_items d' = order_items d @ concat pages" "distinct (map sto_id rows)"
    and sub: "suborders_of e heap (d_delivery_fee orderData) (length sti) (o_id order) sti rows pages"
    by simp_all
  from sub have stores: "map sto_store_id rows = map fst sti"
    and subtotals: "map sto_subtotal_amount rows = map (\<lambda>(s, l). chunkSubtotal e heap l) sti"
    and coids: "map sto_customer_order_id rows = map (\<lambda>x. o_id order) sti"
    and page_ids: "map (map oit_store_order_id) pages
         = map (\<lambda>(row, (s, l)). map (\<lambda>it. sto_id row) l) (zip rows sti)"
    and page_lines: "map (map (\<lambda>i. (oit_unit_price i, oit_quantity i))) pages
         = map (\<lambda>(s, l). map (\<lambda>it. (oi_price (heap it), oi_quantity (heap it))) l) sti"
    by (simp_all add: suborders_of_def)
  from stores have len: "length rows = length sti"
    by (rule map_eq_imp_length_eq)
  have ids: "map sto_customer_order_id rows = replicate (length rows) (co_id co)"
    using coids co(2) len by (simp add: map_replicate_const)
  have "map (\<lambda>page. lineSubtotal e (map (\<lambda>i. (oit_unit_price i, oit_quantity i)) page)) pages
      = map (lineSubtotal e) (map (map (\<lambda>i. (oit_unit_price i, oit_quantity i))) pages)"
    by simp
  also have "\<dots> = map (\<lambda>(s, l). chunkSubtotal e heap l) sti"
    unfolding page_lines by (simp add: chunkSubtotal_lines case_prod_unfold)
  finally have by_lines: "map sto_subtotal_amount rows
      = map (\<lambda>page. lineSubtotal e (map (\<lambda>i. (oit_unit_price i, oit_quantity i)) page)) pages"
    using subtotals by simp
  have exact: "number_add e = (+) \<and> number_mul e = (*) \<longrightarrow>
          sum_list (map sto_subtotal_amount rows) = cart_total heap (d_items orderData)
          \<and> (sum_list (map sto_subtotal_amount rows) = co_subtotal_amount co)
              = (d_subtotal orderData = cart_total heap (d_items orderData))"
  proof
    assume ops: "number_add e = (+) \<and> number_mul e = (*)"
    then have "map sto_subtotal_amount rows = map (\<lambda>(s, l). cart_total heap l) sti"
      using subtotals by (simp add: chunkSubtotal_exact)
    then have "sum_list (map sto_subtotal_amount rows) = cart_total heap (concat (map snd sti))"
      by (simp only: cart_total_concat)
    also have "\<dots> = cart_total heap (d_items orderData)"
      using ms by (rule cart_total_mset)
    finally have total: "sum_list (map sto_subtotal_amount rows)
        = cart_total heap (d_items orderData)" .
    with co(3) show "sum_list (map sto_subtotal_amount rows) = cart_total heap (d_items orderData)
          \<and> (sum_list (map sto_subtotal_amount rows) = co_subtotal_amount co)
              = (d_subtotal orderData = cart_total heap (d_items orderData))"
      by auto
  qed
  show ?thesis
    apply (rule exI [of _ geocoded])
    apply (rule exI [of _ sti])
    apply (rule exI [of _ co])
    apply (rule exI [of _ rows])
    apply (rule exI [of _ pages])
    using g alloc ms co tables ids stores subtotals page_ids page_lines by_lines exact
    apply (intro conjI)
    apply assumption+
    done
qed

theorem createOrder_suborder_subtotals_witness:
  "sum_list (map sto_subtotal_amount
      (store_orders (snd (createOrder (abc_env no_faults) abc_heap (abc_order [0, 1, 2] 65 30)
         empty_db)))) = 65
   \<and> map co_subtotal_amount
      (customer_orders (snd (createOrder (abc_env no_faults) abc_heap (abc_order [0, 1, 2] 65 30)
         empty_db))) = [65]"
proof -
  let ?r = "createOrder (abc_env no_faults) abc_heap (abc_order [0, 1, 2] 65 30) empty_db"
  have "\<not> isl (fst ?r)" by code_simp
  then have "?r = (Inr (projr (fst ?r)), snd ?r)" by (rule success_collapse)
  from createOrder_suborder_subtotals [OF this] obtain co rows where
    r: "customer_orders (snd ?r) = customer_orders empty_db @ [co]"
      "store_orders (snd ?r) = store_orders empty_db @ rows"
      "co_subtotal_amount co = d_subtotal (abc_order [0, 1, 2] 65 30)"
      "number_add (abc_env no_faults) = (+) \<and> number_mul (abc_env no_faults) = (*) \<longrightarrow>
          sum_list (map sto_subtotal_amount rows)
            = cart_total abc_heap (d_items (abc_order [0, 1, 2] 65 30))"
    by blast
  have "number_add (abc_env no_faults) = (+) \<and> number_mul (abc_env no_faults) = (*)"
    by (simp add: abc_env_def)
  with r(4) have "sum_list (map sto_subtotal_amount rows)
      = cart_total abc_heap (d_items (abc_order [0, 1, 2] 65 30))" by simp
  moreover have "cart_total abc_heap (d_items (abc_order [0, 1, 2] 65 30)) = 65"
    by (simp add: cart_total_def abc_order_def abc_heap_def cart_line_def)
  ultimately show ?thesis using r(1-3)
    by (simp add: empty_db_def abc_order_def)
qed

theorem createOrder_subtotal_counterexample:
  "\<not> isl (fst (createOrder (abc_env no_faults) abc_heap (abc_order [0, 1, 2] 0 30) empty_db))
   \<and> sum_list (map sto_subtotal_amount
        (store_orders (snd (createOrder (abc_env no_faults) abc_heap (abc_order [0, 1, 2] 0 30)
           empty_db)))) = 65
   \<and> map co_subtotal_amount
        (customer_orders (snd (createOrder (abc_env no_faults) abc_heap (abc_order [0, 1, 2] 0 30)
           empty_db))) = [0]"
  by code_simp

text \<open>
  C7. After a successful \<open>createOrder\<close> with \<open>N\<close> new sub-orders, \<open>N\<close> is at
  least one; each sub-order carries the delivery fee divided by \<open>N\<close> when
  \<open>N > 1\<close> and the whole fee when \<open>N = 1\<close>; the shares add up to the fee (numbers
  being reals, exactly).
\<close>

theorem createOrder_delivery_fee_split:
  assumes "createOrder e heap orderData d = (Inr order, d')"
  shows "\<exists>rows. store_orders d' = store_orders d @ rows \<and> rows \<noteq> []
     \<and> map sto_customer_order_id rows = replicate (length rows) (o_id order)
     \<and> (1 < length rows \<longrightarrow>
          (\<forall>r \<in> set rows. sto_delivery_fee r = d_delivery_fee orderData / real (length rows)))
     \<and> (length rows = 1 \<longrightarrow> (\<forall>r \<in> set rows. sto_delivery_fee r = d_delivery_fee orderData))
     \<and> sum_list (map sto_delivery_fee rows) = d_delivery_fee orderData"
proof -
  from createOrder_rows [OF assms] obtain geocoded sti co rows pages where
    all: "resolve_coordinates e (d_shipping_address orderData) = Some geocoded
     \<and> allocate
          (build_byMaster
             (availability_rows e (getNearbyStoreIds e (fst geocoded) (snd geocoded) 50)
                (new_Set (valid_ids (map (\<lambda>it. mid_of (heap it)) (d_items orderData)))))
             Map.empty)
          heap (d_items orderData) (getNearbyStoreIds e (fst geocoded) (snd geocoded) 50)
         = Inr (sti, [])
     \<and> sti \<noteq> []
     \<and> mset (concat (map snd sti)) = mset (d_items orderData)
     \<and> customer_orders d' = customer_orders d @ [co]
     \<and> co_id co = o_id order
     \<and> co_subtotal_amount co = d_subtotal orderData
     \<and> store_orders d' = store_orders d @ rows
     \<and> order_items d' = order_items d @ concat pages
     \<and> distinct (map sto_id rows)
     \<and> suborders_of e heap (d_delivery_fee orderData) (length sti) (o_id order) sti rows pages"
    by (elim exE)
  then have tables: "store_orders d' = store_orders d @ rows" "sti \<noteq> []"
    and sub: "suborders_of e heap (d_delivery_fee orderData) (length sti) (o_id order) sti rows pages"
    by simp_all
  from sub tables have r: "store_orders d' = store_orders d @ rows" "sti \<noteq> []"
      "map sto_store_id rows = map fst sti"
      "map sto_delivery_fee rows
         = map (\<lambda>x. chunkDeliveryFee (d_delivery_fee orderData) (length sti)) sti"
      "map sto_customer_order_id rows = map (\<lambda>x. o_id order) sti"
    by (simp_all add: suborders_of_def)
  let ?n = "length rows"
  let ?share = "chunkDeliveryFee (d_delivery_fee orderData) ?n"
  from r(3) have len: "length rows = length sti"
    by (rule map_eq_imp_length_eq)
  with r(2) have ne: "rows \<noteq> []" and pos: "0 < ?n" by auto
  have ids: "map sto_customer_order_id rows = replicate ?n (o_id order)"
    using r(5) len by (simp add: map_replicate_const)
  have fees: "map sto_delivery_fee rows = replicate ?n ?share"
    using r(4) len by (simp add: map_replicate_const)
  have each: "sto_delivery_fee row = ?share" if "row \<in> set rows" for row
  proof -
    from that have "sto_delivery_fee row \<in> set (map sto_delivery_fee rows)" by simp
    with fees show ?thesis by simp
  qed
  have many: "1 < ?n \<longrightarrow>
      (\<forall>r \<in> set rows. sto_delivery_fee r = d_delivery_fee orderData / real ?n)"
    using each by (simp add: chunkDeliveryFee_def)
  have one: "?n = 1 \<longrightarrow> (\<forall>r \<in> set rows. sto_delivery_fee r = d_delivery_fee orderData)"
    using each by (simp add: chunkDeliveryFee_def)
  have "sum_list (map sto_delivery_fee rows) = real ?n * ?share"
    unfolding fees by (simp add: sum_list_replicate)
  also have "\<dots> = d_delivery_fee orderData"
  proof (cases "1 < ?n")
    case True
    with ne show ?thesis by (simp add: chunkDeliveryFee_def)
  next
    case False
    with pos have "?n = 1" by linarith
    then show ?thesis by (simp add: chunkDeliveryFee_def)
  qed
  finally have total: "sum_list (map sto_delivery_fee rows) = d_delivery_fee orderData" .
  from r(1) ne ids many one total show ?thesis by blast
qed

theorem createOrder_delivery_fee_split_witness:
  "sum_list (map sto_delivery_fee
      (store_orders (snd (createOrder (abc_env no_faults) abc_heap (abc_order [0, 1, 2] 65 30)
         empty_db)))) = 30
   \<and> sum_list (map sto_delivery_fee
      (store_orders (snd (createOrder (abc_env no_faults) abc_heap (abc_order [0, 1] 50 30)
         empty_db)))) = 30"
proof -
  have total: "sum_list (map sto_delivery_fee
      (store_orders (snd (createOrder (abc_env no_faults) abc_heap (abc_order cart sub 30)
         empty_db)))) = 30"
    if ok: "\<not> isl (fst (createOrder (abc_env no_faults) abc_heap (abc_order cart sub 30) empty_db))"
    for cart sub
  proof -
    let ?r = "createOrder (abc_env no_faults) abc_heap (abc_order cart sub 30) empty_db"
    from ok have "?r = (Inr (projr (fst ?r)), snd ?r)" by (rule success_collapse)
    from createOrder_delivery_fee_split [OF this] obtain rows where
      "store_orders (snd ?r) = store_orders empty_db @ rows"
      "sum_list (map sto_delivery_fee rows) = d_delivery_fee (abc_order cart sub 30)"
      by blast
    then show ?thesis by (simp add: empty_db_def abc_order_def)
  qed
  have "\<not> isl (fst (createOrder (abc_env no_faults) abc_heap (abc_order [0, 1, 2] 65 30) empty_db))"
    by code_simp
  moreover
  have "\<not> isl (fst (createOrder (abc_env no_faults) abc_heap (abc_order [0, 1] 50 30) empty_db))"
    by code_simp
  ultimately show ?thesis using total by blast
qed

section \<open>Paged and unpaged selects\<close>

lemma chunk_loop_pages:
  "0 < sz \<Longrightarrow> \<exists>pages. chunk_loop arr sz i out = Some (out @ pages)
      \<and> concat pages = drop i arr
      \<and> (\<forall>p \<in> set pages. p \<noteq> [] \<and> length p \<le> sz)"
proof (induction "length arr - i" arbitrary: i out rule: less_induct)
  case less
  show ?case
  proof (cases "i < length arr")
    case False
    then show ?thesis by (subst chunk_loop.simps) simp
  next
    case True
    with less.prems have smaller: "length arr - (i + sz) < length arr - i" by simp
    from less.hyps [OF smaller less.prems, of "out @ [slice arr i (i + sz)]"]
    obtain pages where
      pages: "chunk_loop arr sz (i + sz) (out @ [slice arr i (i + sz)])
                = Some ((out @ [slice arr i (i + sz)]) @ pages)"
        "concat pages = drop (i + sz) arr"
        "\<forall>p \<in> set pages. p \<noteq> [] \<and> length p \<le> sz"
      by blast
    have step: "chunk_loop arr sz i out = Some (out @ (slice arr i (i + sz) # pages))"
      using True pages(1) by (subst chunk_loop.simps) simp
    have "take sz (drop i arr) @ drop sz (drop i arr) = drop i arr"
      by (rule append_take_drop_id)
    moreover have "drop sz (drop i arr) = drop (i + sz) arr"
      by (simp add: add.commute)
    ultimately have cat: "concat (slice arr i (i + sz) # pages) = drop i arr"
      using pages(2) by (simp add: slice_def)
    have bound: "\<forall>p \<in> set (slice arr i (i + sz) # pages). p \<noteq> [] \<and> length p \<le> sz"
      using pages(3) True less.prems by (auto simp: slice_def)
    from step cat bound show ?thesis by blast
  qed
qed

lemma chunk_pages:
  "0 < sz \<Longrightarrow> \<exists>pages. chunk arr sz = Some pages \<and> concat pages = arr
      \<and> (\<forall>p \<in> set pages. p \<noteq> [] \<and> length p \<le> sz)"
  using chunk_loop_pages [of sz arr 0 "[]"] by (simp add: chunk_def)

lemma fetchProductRows_queries_bounded:
  "\<exists>qs. fetchProductRows_queries storeIds = Some qs
      \<and> concat (map q_store_ids qs) = storeIds
      \<and> (\<forall>q \<in> set qs. length (q_store_ids q) \<le> IN_FILTER_CHUNK_SIZE)"
proof -
  have "0 < IN_FILTER_CHUNK_SIZE" by (simp add: IN_FILTER_CHUNK_SIZE_def)
  from chunk_pages [OF this, of storeIds] obtain pages where
    pages: "chunk storeIds IN_FILTER_CHUNK_SIZE = Some pages" "concat pages = storeIds"
      "\<forall>p \<in> set pages. p \<noteq> [] \<and> length p \<le> IN_FILTER_CHUNK_SIZE"
    by blast
  have "concat (map q_store_ids (map (\<lambda>ids. \<lparr>q_store_ids = ids, q_master_ids = None\<rparr>) pages))
      = concat pages"
    by (simp add: comp_def)
  with pages show ?thesis
    by (simp add: fetchProductRows_queries_def)
qed

lemma run_query_pages:
  assumes "\<forall>q \<in> set qs. q_master_ids q = None"
  shows "set (concat (map (run_query table) qs))
     = set (run_query table \<lparr>q_store_ids = concat (map q_store_ids qs), q_master_ids = None\<rparr>)"
proof
  show "set (concat (map (run_query table) qs))
     \<subseteq> set (run_query table \<lparr>q_store_ids = concat (map q_store_ids qs), q_master_ids = None\<rparr>)"
  proof
    fix row
    assume "row \<in> set (concat (map (run_query table) qs))"
    then obtain q where q: "q \<in> set qs" "row \<in> set (run_query table q)" by auto
    with assms have "row \<in> set table" "pr_is_active row" "pr_store_id row \<in> set (q_store_ids q)"
      by (auto simp: run_query_def)
    with q(1) show "row \<in> set (run_query table
        \<lparr>q_store_ids = concat (map q_store_ids qs), q_master_ids = None\<rparr>)"
      by (auto simp: run_query_def)
  qed
next
  show "set (run_query table \<lparr>q_store_ids = concat (map q_store_ids qs), q_master_ids = None\<rparr>)
     \<subseteq> set (concat (map (run_query table) qs))"
  proof
    fix row
    assume "row \<in> set (run_query table
        \<lparr>q_store_ids = concat (map q_store_ids qs), q_master_ids = None\<rparr>)"
    then have row: "row \<in> set table" "pr_is_active row"
      and "pr_store_id row \<in> set (concat (map q_store_ids qs))"
      by (auto simp: run_query_def)
    then obtain q where q: "q \<in> set qs" "pr_store_id row \<in> set (q_store_ids q)" by auto
    with assms row have "row \<in> set (run_query table q)"
      by (simp add: run_query_def)
    with q(1) show "row \<in> set (concat (map (run_query table) qs))" by auto
  qed
qed

lemma fetchProductRows_pages_merge:
  "\<exists>qs. fetchProductRows_queries storeIds = Some qs
      \<and> (\<forall>q \<in> set qs. length (q_store_ids q) \<le> IN_FILTER_CHUNK_SIZE)
      \<and> set (concat (map (run_query table) qs))
          = set (run_query table \<lparr>q_store_ids = storeIds, q_master_ids = None\<rparr>)"
proof -
  from fetchProductRows_queries_bounded [of storeIds] obtain qs where
    qs: "fetchProductRows_queries storeIds = Some qs" "concat (map q_store_ids qs) = storeIds"
      "\<forall>q \<in> set qs. length (q_store_ids q) \<le> IN_FILTER_CHUNK_SIZE"
    by blast
  from qs(1) have "\<forall>q \<in> set qs. q_master_ids q = None"
    by (auto simp: fetchProductRows_queries_def split: option.splits)
  from run_query_pages [OF this, of table] qs show ?thesis by simp
qed

lemma fetch_chunks_rows:
  "\<forall>q \<in> set qs. faults q = None \<Longrightarrow>
     fetch_chunks faults table qs acc = Inr (acc @ concat (map (run_query table) qs))"
  by (induction qs arbitrary: acc) simp_all

lemma fetchProductRows_paged:
  assumes "ids \<noteq> []" and "\<forall>q. faults q = None"
  shows "\<exists>rows. fetchProductRows faults range_faults table (Some ids) = Some (Inr rows)
     \<and> set rows = set (run_query table \<lparr>q_store_ids = ids, q_master_ids = None\<rparr>)"
proof -
  from fetchProductRows_pages_merge [of ids table] obtain qs where
    qs: "fetchProductRows_queries ids = Some qs"
      "set (concat (map (run_query table) qs))
         = set (run_query table \<lparr>q_store_ids = ids, q_master_ids = None\<rparr>)"
    by blast
  from assms(2) have "fetch_chunks faults table qs [] = Inr ([] @ concat (map (run_query table) qs))"
    by (intro fetch_chunks_rows) simp
  with assms(1) qs show ?thesis
    by (simp add: fetchProductRows_def)
qed

lemma fetch_ranges_rows:
  "\<forall>n. range_faults n = None \<Longrightarrow>
     fetch_ranges range_faults table start acc
       = Inr (acc @ drop start (filter pr_is_active table))"
proof (induction range_faults table start acc rule: fetch_ranges.induct)
  case (1 range_faults table start acc)
  let ?act = "filter pr_is_active table"
  let ?data = "select_range table start (start + batchSize - 1)"
  have data: "?data = take batchSize (drop start ?act)"
    by (simp add: select_range_def batchSize_def)
  from "1.prems" have ok: "range_faults start = None" by simp
  show ?case
  proof (cases "?data \<noteq> [] \<and> length ?data = batchSize")
    case True
    then have ne: "?data \<noteq> []" and len: "length ?data = batchSize" by simp_all
    from "1.IH" [OF ok refl ne len "1.prems"]
    have "fetch_ranges range_faults table (start + batchSize) (acc @ ?data)
        = Inr ((acc @ ?data) @ drop (start + batchSize) ?act)" .
    moreover have "take batchSize (drop start ?act) @ drop batchSize (drop start ?act)
        = drop start ?act"
      by (rule append_take_drop_id)
    moreover have "drop batchSize (drop start ?act) = drop (start + batchSize) ?act"
      by (simp add: add.commute)
    ultimately show ?thesis
      using ok ne len data by (subst fetch_ranges.simps) (simp add: Let_def)
  next
    case False
    show ?thesis
    proof (cases "?data = []")
      case True
      with data have "drop start ?act = []" by (simp add: batchSize_def)
      with True ok show ?thesis by (subst fetch_ranges.simps) (simp add: Let_def)
    next
      case ne: False
      with False have "length ?data \<noteq> batchSize" by simp
      with data have "length (drop start ?act) < batchSize" by simp
      with data have "?data = drop start ?act" by simp
      with ne False ok show ?thesis by (subst fetch_ranges.simps) (simp add: Let_def)
    qed
  qed
qed

lemma fetchProductRows_whole_table:
  assumes "\<forall>n. range_faults n = None"
  shows "fetchProductRows faults range_faults table None = Some (Inr (filter pr_is_active table))"
    and "fetchProductRows faults range_faults table (Some [])
           = Some (Inr (filter pr_is_active table))"
  using fetch_ranges_rows [OF assms, of table 0 "[]"] by (simp_all add: fetchProductRows_def)

text \<open>
  C9. The availability step should page its inventory selects so that no id filter
  exceeds the transport's limit. In \<open>createOrder\<close> it is a single select carrying the
  whole of \<open>storeIds\<close> and \<open>masterProductIds\<close>: with 101 candidate stores the
  \<open>store_id\<close> filter has 101 ids, above \<open>IN_FILTER_CHUNK_SIZE\<close>, where the product
  listing sends two selects of 100 and 1 ids (given store ids, its pages are bounded and
  return, merged, the rows of the unpaged select, as shown above).
\<close>

theorem createOrder_availability_select_unpaged:
  "map (\<lambda>q. length (q_store_ids q)) (availability_queries many_store_ids [''A'']) = [101]
   \<and> map q_master_ids (availability_queries many_store_ids [''A'']) = [Some [''A'']]
   \<and> IN_FILTER_CHUNK_SIZE < 101
   \<and> map_option (map (\<lambda>q. length (q_store_ids q))) (fetchProductRows_queries many_store_ids)
       = Some [100, 1]"
proof -
  have len: "length many_store_ids = 101"
    by (simp add: many_store_ids_def)
  have one: "map (\<lambda>q. length (q_store_ids q)) (availability_queries many_store_ids [''A'']) = [101]"
    by (simp add: availability_queries_def len)
  have two: "map q_master_ids (availability_queries many_store_ids [''A'']) = [Some [''A'']]"
    by (simp add: availability_queries_def)
  have three: "IN_FILTER_CHUNK_SIZE < 101"
    by (simp add: IN_FILTER_CHUNK_SIZE_def)
  have loop: "chunk_loop many_store_ids 100 0 []
      = Some [slice many_store_ids 0 100, slice many_store_ids 100 200]"
    by (simp add: chunk_loop.simps [of many_store_ids] len)
  have four: "map_option (map (\<lambda>q. length (q_store_ids q)))
      (fetchProductRows_queries many_store_ids) = Some [100, 1]"
    by (simp add: fetchProductRows_queries_def chunk_def IN_FILTER_CHUNK_SIZE_def loop
        slice_def len)
  from one two three four show ?thesis by simp
qed

section \<open>The compensating delete of \<open>signupComplete\<close>\<close>

text \<open>
  C10. When the \<open>app_users\<close> insert succeeds and the \<open>stores\<close> insert fails, the
  handler issues a delete of the row it has just created, by its id, before it answers
  with the error: when the datastore carries out that delete, and the new id was not
  in use, both tables are as they were before the request. This holds for both copies
  of the controller. The handler does not read the answer of the delete, so the claim's
  "never" does not hold: see the counterexample below.
\<close>

theorem signupComplete_rolls_back_user:
  assumes "b_phone body = Some phone" and "phone \<noteq> []"
    and "b_ownerName body = Some ownerName" and "ownerName \<noteq> []"
    and "b_storeName body = Some storeName" and "storeName \<noteq> []"
    and "faults InsertAppUser = None"
    and "faults InsertStore = Some msg"
    and "faults DeleteAppUser = None"
    and "\<forall>u \<in> set (app_users d). au_id u \<noteq> next_user_id d"
  shows "\<exists>d'. signupComplete_with store_is_active faults token body d
             = (ErrorResponse 500 (message_or msg ''Failed to create store''), d')
           \<and> app_users d' = app_users d \<and> stores d' = stores d"
proof -
  from assms(10) have "filter (\<lambda>u. au_id u \<noteq> next_user_id d) (app_users d) = app_users d"
    by (simp add: filter_id_conv)
  with assms(1-9) show ?thesis
    by (simp add: signupComplete_with_def Let_def)
qed

theorem signupComplete_rolls_back_user_witness:
  "signupComplete stores_insert_fails ''t'' signup_body signup_db0
     = (ErrorResponse 500 ''permission denied for table stores'',
        signup_db0\<lparr>next_user_id := 2\<rparr>)
   \<and> signupComplete_online stores_insert_fails ''t'' signup_body signup_db0
     = (ErrorResponse 500 ''permission denied for table stores'',
        signup_db0\<lparr>next_user_id := 2\<rparr>)"
proof -
  have pre: "b_phone signup_body = Some ''+919999990001''" "''+919999990001'' \<noteq> []"
    "b_ownerName signup_body = Some '' Asha ''" "'' Asha '' \<noteq> []"
    "b_storeName signup_body = Some ''Asha Stores''" "''Asha Stores'' \<noteq> []"
    "stores_insert_fails InsertAppUser = None"
    "stores_insert_fails InsertStore = Some ''permission denied for table stores''"
    "stores_insert_fails DeleteAppUser = None"
    "\<forall>u \<in> set (app_users signup_db0). au_id u \<noteq> next_user_id signup_db0"
    by (simp_all add: signup_body_def stores_insert_fails_def signup_db0_def)
  have rest: "next_user_id (snd (signupComplete_with a stores_insert_fails ''t'' signup_body
      signup_db0)) = 2" for a
    by (simp add: signupComplete_with_def signup_body_def stores_insert_fails_def
        signup_db0_def Let_def)
  have "signupComplete_with a stores_insert_fails ''t'' signup_body signup_db0
     = (ErrorResponse 500 ''permission denied for table stores'',
        signup_db0\<lparr>next_user_id := 2\<rparr>)" for a
  proof -
    from signupComplete_rolls_back_user [OF pre, of a "''t''"] obtain d' where
      d': "signupComplete_with a stores_insert_fails ''t'' signup_body signup_db0
             = (ErrorResponse 500 (message_or ''permission denied for table stores''
                  ''Failed to create store''), d')"
        "app_users d' = app_users signup_db0" "stores d' = stores signup_db0"
      by blast
    from d'(1) rest [of a] have "next_user_id d' = 2" by simp
    with d'(2,3) have "d' = signup_db0\<lparr>next_user_id := 2\<rparr>"
      by (cases d', simp add: signup_db0_def)
    with d'(1) show ?thesis by (simp add: message_or_def)
  qed
  then show ?thesis
    by (simp add: signupComplete_def signupComplete_online_def)
qed

text \<open>
  With a datastore that refuses the delete as well, the answer is the same and the
  \<open>app_users\<close> row of the new user, id \<open>1\<close>, stays without a store.
\<close>

theorem signupComplete_orphan_counterexample:
  "fst (signupComplete stores_insert_and_delete_fail ''t'' signup_body signup_db0)
     = ErrorResponse 500 ''permission denied for table stores''
   \<and> map au_id (app_users signup_db0) = [0]
   \<and> map au_id (app_users (snd (signupComplete stores_insert_and_delete_fail ''t'' signup_body
        signup_db0))) = [0, 1]
   \<and> map au_role (app_users (snd (signupComplete stores_insert_and_delete_fail ''t'' signup_body
        signup_db0))) = [''shopkeeper'', ''store_owner'']
   \<and> stores (snd (signupComplete stores_insert_and_delete_fail ''t'' signup_body signup_db0)) = []"
  by (simp add: signupComplete_def signupComplete_with_def signup_body_def
      stores_insert_and_delete_fail_def signup_db0_def Let_def message_or_def)

end
